theory Spec2Isabelle
  imports Main
begin

section \<open>Strings, paths and dictionaries as font_management.py uses them\<close>

text \<open>
  Strings are lists of ASCII characters. \<open>str.lower\<close> is modelled on the letters A to Z
  (other characters are left alone), \<open>str.replace(" ", "_")\<close> character by character,
  \<open>str.endswith\<close>, \<open>str.startswith\<close> and the substring test \<open>sub in s\<close> by recursion
  on the string. For a family name with letters outside ASCII, Python's \<open>lower\<close> changes
  those letters too, and the cache file names of the code differ from the ones here.
\<close>

definition lower_char :: "char \<Rightarrow> char" where
  "lower_char c =
     (case map_of (zip ''ABCDEFGHIJKLMNOPQRSTUVWXYZ'' ''abcdefghijklmnopqrstuvwxyz'') c of
        Some l \<Rightarrow> l
      | None \<Rightarrow> c)"

definition lower :: "string \<Rightarrow> string" where
  "lower s = map lower_char s"

definition replace_space :: "string \<Rightarrow> string" where
  "replace_space s = map (\<lambda>c. if c = CHR '' '' then CHR ''_'' else c) s"

fun startswith :: "string \<Rightarrow> string \<Rightarrow> bool" where
  "startswith s [] = True"
| "startswith [] (p # ps) = False"
| "startswith (c # cs) (p # ps) = (c = p \<and> startswith cs ps)"

definition endswith :: "string \<Rightarrow> string \<Rightarrow> bool" where
  "endswith s suf = startswith (rev s) (rev suf)"

text \<open>\<open>str_in sub s\<close> is Python's \<open>sub in s\<close>.\<close>

fun str_in :: "string \<Rightarrow> string \<Rightarrow> bool" where
  "str_in sub [] = (sub = [])"
| "str_in sub (c # cs) = (startswith (c # cs) sub \<or> str_in sub cs)"

text \<open>
  \<open>os.path.join(d, name)\<close> and pathlib's \<open>d / name\<close> on a POSIX system, for a
  directory \<open>d\<close> without a trailing separator and a non-empty \<open>name\<close>: an absolute
  \<open>name\<close> replaces \<open>d\<close>. pathlib also drops \<open>.\<close> components and repeated separators
  inside \<open>name\<close>; that is not modelled, so the paths are exact for names without a
  separator.
\<close>

definition path_join :: "string \<Rightarrow> string \<Rightarrow> string" where
  "path_join d name = (if startswith name ''/'' then name else d @ ''/'' @ name)"

definition FONTS_DIR :: string where
  "FONTS_DIR = ''fonts''"

definition FONTS_CACHE_DIR :: string where
  "FONTS_CACHE_DIR = path_join FONTS_DIR ''cache''"

text \<open>
  A Python \<open>dict\<close> keeps its keys in insertion order, and the code reads that order
  (\<open>list(d.values())[0]\<close>, \<open>min(d.keys(), ...)\<close>), so a dict is an association list;
  \<open>d[k] = v\<close> overwrites in place or appends.
\<close>

type_synonym ('k, 'v) dict = "('k \<times> 'v) list"

fun dict_set :: "('k, 'v) dict \<Rightarrow> 'k \<Rightarrow> 'v \<Rightarrow> ('k, 'v) dict" where
  "dict_set [] k v = [(k, v)]"
| "dict_set ((k', v') # d) k v =
     (if k' = k then (k', v) # d else (k', v') # dict_set d k v)"

definition dict_get :: "('k, 'v) dict \<Rightarrow> 'k \<Rightarrow> 'v option" where
  "dict_get d k = map_of d k"

definition dict_has :: "('k, 'v) dict \<Rightarrow> 'k \<Rightarrow> bool" where
  "dict_has d k = (k \<in> set (map fst d))"

definition setdefault :: "('k, 'v) dict \<Rightarrow> 'k \<Rightarrow> 'v \<Rightarrow> ('k, 'v) dict" where
  "setdefault d k v = (if dict_has d k then d else dict_set d k v)"

text \<open>Truthiness of an optional string: \<open>None\<close> and \<open>""\<close> are false.\<close>

fun truthy :: "string option \<Rightarrow> bool" where
  "truthy None = False"
| "truthy (Some s) = (s \<noteq> [])"

section \<open>download_google_font: cache file names\<close>

text \<open>Line 33: \<open>font_name_safe = font_family.replace(" ", "_").lower()\<close>.\<close>

definition font_name_safe :: "string \<Rightarrow> string" where
  "font_name_safe font_family = lower (replace_space font_family)"

text \<open>Line 74 and 78: \<open>weight_map.get(weight, "regular")\<close>.\<close>

definition weight_map :: "(int, string) dict" where
  "weight_map = [(300, ''light''), (400, ''regular''), (700, ''bold'')]"

definition weight_key :: "int \<Rightarrow> string" where
  "weight_key weight = (case dict_get weight_map weight of Some k \<Rightarrow> k | None \<Rightarrow> ''regular'')"

text \<open>Line 96: \<open>"woff2" if weight_url.endswith(".woff2") else "ttf"\<close>.\<close>

definition file_ext :: "string \<Rightarrow> string" where
  "file_ext weight_url = (if endswith weight_url ''.woff2'' then ''woff2'' else ''ttf'')"

text \<open>Line 99: \<open>f"{font_name_safe}_{weight_key}.{file_ext}"\<close>.\<close>

definition font_filename :: "string \<Rightarrow> string \<Rightarrow> string \<Rightarrow> string" where
  "font_filename font_family wkey ext = font_name_safe font_family @ ''_'' @ wkey @ ''.'' @ ext"

section \<open>The outside world: file system, network, effects\<close>

text \<open>
  The file system maps the paths that exist to their contents. Every call that reaches
  outside the process is recorded in a trace, in the order the calls are made.
  (The \<open>print\<close> calls are not modelled.) An existence check answers true or false;
  \<open>Path.exists\<close> raising on an operating system error, such as a name that is too long,
  is not modelled.
\<close>

type_synonym path = string
type_synonym url = string
type_synonym bytes = "nat list"

datatype event =
    Mkdir path
  | Exists path
  | GetCatalog string "int list"
  | GetFont url
  | WriteBytes path bytes

record world =
  files :: "path \<Rightarrow> bytes option"
  trace :: "event list"

datatype exn = OSError | RequestException | ValueError | KeyError

datatype 'a result = Raised exn | Returned 'a

text \<open>
  One \<open>@font-face\<close> block of the style sheet the catalog request returns, as the two
  \<open>re.search\<close> calls of lines 62 and 69 see it: the integer after \<open>font-weight:\<close> and
  the first \<open>url(https://....woff2|ttf)\<close>, when they match.
\<close>

datatype font_face_block = Block (weight_match: "int option") (url_match: "url option")

text \<open>
  \<open>Path.write_bytes\<close> opens the final path for writing and then writes: it can fail
  before the file is created, or after, when only a part of the data has reached the file.
\<close>

datatype write_fault = NoFault | OpenFault | WriteFault nat

text \<open>
  What the world answers: whether \<open>mkdir\<close> succeeds, what \<open>requests.get\<close> followed by
  \<open>raise_for_status\<close> gives for the catalog request and for a font file, and how a
  write to a path ends. During one call the same request gets the same answer; two calls
  can be given two different answers.
\<close>

record env =
  mkdir_ok :: bool
  catalog_response :: "string \<Rightarrow> int list \<Rightarrow> exn + font_face_block list"
  font_response :: "url \<Rightarrow> exn + bytes"
  disk_fault :: "path \<Rightarrow> write_fault"

definition log :: "event \<Rightarrow> world \<Rightarrow> world" where
  "log e w = w\<lparr>trace := trace w @ [e]\<rparr>"

definition path_exists :: "world \<Rightarrow> path \<Rightarrow> bool \<times> world" where
  "path_exists w p = (files w p \<noteq> None, log (Exists p) w)"

definition write_bytes :: "env \<Rightarrow> path \<Rightarrow> bytes \<Rightarrow> world \<Rightarrow> bool \<times> world" where
  "write_bytes e p content w =
     (let w' = log (WriteBytes p content) w in
      case disk_fault e p of
        NoFault \<Rightarrow> (True, w'\<lparr>files := (files w')(p \<mapsto> content)\<rparr>)
      | OpenFault \<Rightarrow> (False, w')
      | WriteFault n \<Rightarrow> (False, w'\<lparr>files := (files w')(p \<mapsto> take n content)\<rparr>))"

section \<open>download_google_font\<close>

text \<open>Lines 55 to 71: the loop that fills \<open>weight_url_map\<close> from the blocks.\<close>

fun parse_blocks :: "(int, url) dict \<Rightarrow> font_face_block list \<Rightarrow> (int, url) dict" where
  "parse_blocks weight_url_map [] = weight_url_map"
| "parse_blocks weight_url_map (block # blocks) =
     (case weight_match block of
        None \<Rightarrow> parse_blocks weight_url_map blocks
      | Some weight \<Rightarrow>
          (case url_match block of
             None \<Rightarrow> parse_blocks weight_url_map blocks
           | Some u \<Rightarrow> parse_blocks (dict_set weight_url_map weight u) blocks))"

text \<open>
  Python's \<open>min(xs, key=f)\<close>: the first element, in iteration order, whose key is
  minimal; \<open>ValueError\<close> (here \<open>None\<close>) on an empty sequence.
\<close>

fun min_by :: "('a \<Rightarrow> int) \<Rightarrow> 'a \<Rightarrow> 'a list \<Rightarrow> 'a" where
  "min_by f best [] = best"
| "min_by f best (x # xs) = min_by f (if f x < f best then x else best) xs"

definition py_min :: "('a \<Rightarrow> int) \<Rightarrow> 'a list \<Rightarrow> 'a option" where
  "py_min f xs = (case xs of [] \<Rightarrow> None | x # ys \<Rightarrow> Some (min_by f x ys))"

text \<open>Lines 86 to 88.\<close>

definition closest_weight :: "(int, url) dict \<Rightarrow> int \<Rightarrow> int option" where
  "closest_weight weight_url_map weight = py_min (\<lambda>x. \<bar>x - weight\<bar>) (map fst weight_url_map)"

text \<open>Lines 81 to 89: the URL used for a requested weight.\<close>

definition select_url :: "(int, url) dict \<Rightarrow> int \<Rightarrow> url option result" where
  "select_url weight_url_map weight =
     (let weight_url = dict_get weight_url_map weight in
      if \<not> truthy weight_url \<and> weight_url_map \<noteq> [] then
        (case closest_weight weight_url_map weight of
           None \<Rightarrow> Raised ValueError
         | Some closest \<Rightarrow>
             (case dict_get weight_url_map closest of
                None \<Rightarrow> Raised KeyError
              | Some u \<Rightarrow> Returned (Some u)))
      else Returned weight_url)"

text \<open>Lines 99 and 100.\<close>

definition cache_path :: "string \<Rightarrow> int \<Rightarrow> url \<Rightarrow> path" where
  "cache_path font_family weight weight_url =
     path_join FONTS_CACHE_DIR (font_filename font_family (weight_key weight) (file_ext weight_url))"

text \<open>
  Lines 94 to 114, for a URL that is not empty: use the cached file, or download it and
  write it to the cache path; a failed download leaves \<open>font_files\<close> as it was
  (\<open>continue\<close>).
\<close>

definition get_or_fetch ::
  "env \<Rightarrow> string \<Rightarrow> int \<Rightarrow> url \<Rightarrow> (string, path) dict \<Rightarrow> world \<Rightarrow> (string, path) dict \<times> world" where
  "get_or_fetch e font_family weight weight_url font_files w =
     (let font_path = cache_path font_family weight weight_url;
          (ex, w1) = path_exists w font_path
      in if \<not> ex then
           (let w2 = log (GetFont weight_url) w1 in
            case font_response e weight_url of
              Inl err \<Rightarrow> (font_files, w2)
            | Inr content \<Rightarrow>
                (let (written, w3) = write_bytes e font_path content w2 in
                 if written then (dict_set font_files (weight_key weight) font_path, w3)
                 else (font_files, w3)))
         else (dict_set font_files (weight_key weight) font_path, w1))"

text \<open>Lines 78 to 114: the body of the loop over the requested weights.\<close>

definition download_weight ::
  "env \<Rightarrow> string \<Rightarrow> (int, url) dict \<Rightarrow> int \<Rightarrow> (string, path) dict \<Rightarrow> world
     \<Rightarrow> (string, path) dict result \<times> world" where
  "download_weight e font_family weight_url_map weight font_files w =
     (case select_url weight_url_map weight of
        Raised err \<Rightarrow> (Raised err, w)
      | Returned weight_url \<Rightarrow>
          if truthy weight_url then
            (case weight_url of
               None \<Rightarrow> (Returned font_files, w)
             | Some u \<Rightarrow>
                 (case get_or_fetch e font_family weight u font_files w of
                    (font_files', w') \<Rightarrow> (Returned font_files', w')))
          else (Returned font_files, w))"

fun download_weights ::
  "env \<Rightarrow> string \<Rightarrow> (int, url) dict \<Rightarrow> int list \<Rightarrow> (string, path) dict \<Rightarrow> world
     \<Rightarrow> (string, path) dict result \<times> world" where
  "download_weights e font_family weight_url_map [] font_files w = (Returned font_files, w)"
| "download_weights e font_family weight_url_map (weight # weights) font_files w =
     (case download_weight e font_family weight_url_map weight font_files w of
        (Raised err, w') \<Rightarrow> (Raised err, w')
      | (Returned font_files', w') \<Rightarrow>
          download_weights e font_family weight_url_map weights font_files' w')"

text \<open>Lines 116 to 120: make sure there is a regular weight.\<close>

definition ensure_regular :: "(string, path) dict \<Rightarrow> (string, path) dict" where
  "ensure_regular font_files =
     (if \<not> dict_has font_files ''regular'' \<and> font_files \<noteq> [] then
        (case font_files of
           [] \<Rightarrow> font_files
         | (k, v) # rest \<Rightarrow> dict_set font_files ''regular'' v)
      else font_files)"

text \<open>Lines 122 to 128: a missing bold or light weight is the regular one.\<close>

definition fill_from_regular :: "string \<Rightarrow> (string, path) dict \<Rightarrow> (string, path) dict" where
  "fill_from_regular k font_files =
     (case dict_get font_files ''regular'' of
        None \<Rightarrow> font_files
      | Some r \<Rightarrow> if dict_has font_files k then font_files else dict_set font_files k r)"

definition backfill :: "(string, path) dict \<Rightarrow> (string, path) dict" where
  "backfill font_files = fill_from_regular ''light'' (fill_from_regular ''bold'' (ensure_regular font_files))"

text \<open>Lines 38 to 130: the body of the \<open>try\<close>.\<close>

definition download_body ::
  "env \<Rightarrow> string \<Rightarrow> int list \<Rightarrow> world \<Rightarrow> (string, path) dict option result \<times> world" where
  "download_body e font_family weights w =
     (let w1 = log (GetCatalog font_family weights) w in
      case catalog_response e font_family weights of
        Inl err \<Rightarrow> (Raised err, w1)
      | Inr blocks \<Rightarrow>
          (case download_weights e font_family (parse_blocks [] blocks) weights [] w1 of
             (Raised err, w2) \<Rightarrow> (Raised err, w2)
           | (Returned font_files, w2) \<Rightarrow>
               (let font_files' = backfill font_files in
                (Returned (if font_files' \<noteq> [] then Some font_files' else None), w2))))"

text \<open>
  The whole function. \<open>mkdir\<close> (line 30) is outside the \<open>try\<close>: when it raises, the
  exception leaves the function. Every exception of the body gives \<open>None\<close>.
  \<open>mkdir\<close> creates directories only and is recorded in the trace; the files stay as
  they are. That is what the file system answers for every path that does not step back
  out of the new directory with a \<open>..\<close> component, hence for every family name without
  a separator.
\<close>

definition download_google_font ::
  "env \<Rightarrow> string \<Rightarrow> int list option \<Rightarrow> world \<Rightarrow> (string, path) dict option result \<times> world" where
  "download_google_font e font_family weights_arg w =
     (let weights = (case weights_arg of None \<Rightarrow> [300, 400, 700] | Some ws \<Rightarrow> ws);
          w0 = log (Mkdir FONTS_CACHE_DIR) w
      in if \<not> mkdir_ok e then (Raised OSError, w0)
         else
           (case download_body e font_family weights w0 of
              (Raised err, w') \<Rightarrow> (Returned None, w')
            | (Returned r, w') \<Rightarrow> (Returned r, w')))"

section \<open>load_fonts\<close>

text \<open>Lines 157 to 164.\<close>

definition local_font_patterns :: "string \<Rightarrow> string list" where
  "local_font_patterns font_family =
     [font_family @ ''-Reg.ttf'',
      font_family @ ''-Regular.ttf'',
      font_family @ ''.ttf'',
      font_family @ ''-Bold.ttf'',
      font_family @ ''-Bd.ttf'',
      font_family @ ''-Light.ttf'']"

text \<open>Lines 171 to 177: the key a pattern is stored under.\<close>

definition classify :: "string \<Rightarrow> string" where
  "classify pattern =
     (let pattern_lower = lower pattern in
      if str_in ''light'' pattern_lower then ''light''
      else if str_in ''bold'' pattern_lower \<or> str_in ''-bd'' pattern_lower then ''bold''
      else ''regular'')"

text \<open>Lines 166 to 177: the scan of the fonts directory.\<close>

fun scan_local :: "string list \<Rightarrow> (string, path) dict \<Rightarrow> world \<Rightarrow> (string, path) dict \<times> world" where
  "scan_local [] local_fonts w = (local_fonts, w)"
| "scan_local (pattern # patterns) local_fonts w =
     (let font_path = path_join FONTS_DIR pattern;
          (ex, w') = path_exists w font_path
      in if ex then scan_local patterns (dict_set local_fonts (classify pattern) font_path) w'
         else scan_local patterns local_fonts w')"

text \<open>Lines 184 to 192: missing weights of the local fonts.\<close>

definition fill_local :: "(string, path) dict \<Rightarrow> (string, path) dict" where
  "fill_local local_fonts =
     (case dict_get local_fonts ''regular'' of
        Some base_font \<Rightarrow> setdefault (setdefault local_fonts ''bold'' base_font) ''light'' base_font
      | None \<Rightarrow>
          (case local_fonts of
             [] \<Rightarrow> local_fonts
           | (k, base_font) # rest \<Rightarrow>
               setdefault (setdefault (setdefault local_fonts ''regular'' base_font)
                 ''bold'' base_font) ''light'' base_font))"

text \<open>Lines 206 to 219: the bundled Roboto fonts, checked in the order of the dict.\<close>

definition default_fonts :: "(string, path) dict" where
  "default_fonts =
     [(''bold'', path_join FONTS_DIR ''Roboto-Bold.ttf''),
      (''regular'', path_join FONTS_DIR ''Roboto-Regular.ttf''),
      (''light'', path_join FONTS_DIR ''Roboto-Light.ttf'')]"

fun verify_fonts :: "(string, path) dict \<Rightarrow> world \<Rightarrow> bool \<times> world" where
  "verify_fonts [] w = (True, w)"
| "verify_fonts ((weight, p) # items) w =
     (let (ex, w') = path_exists w p in
      if \<not> ex then (False, w') else verify_fonts items w')"

definition load_default :: "world \<Rightarrow> (string, path) dict option result \<times> world" where
  "load_default w =
     (let (found, w') = verify_fonts default_fonts w in
      if found then (Returned (Some default_fonts), w') else (Returned None, w'))"

text \<open>Truthiness of \<open>fonts\<close> in line 200: neither \<open>None\<close> nor an empty dict.\<close>

fun truthy_dict :: "('k, 'v) dict option \<Rightarrow> bool" where
  "truthy_dict None = False"
| "truthy_dict (Some d) = (d \<noteq> [])"

definition load_fonts ::
  "env \<Rightarrow> string option \<Rightarrow> world \<Rightarrow> (string, path) dict option result \<times> world" where
  "load_fonts e font_family w =
     (case font_family of
        None \<Rightarrow> load_default w
      | Some family \<Rightarrow>
          if family \<noteq> [] \<and> lower family \<noteq> ''roboto'' then
            (case scan_local (local_font_patterns family) [] w of
               (local_fonts, w1) \<Rightarrow>
                 if local_fonts \<noteq> [] then (Returned (Some (fill_local local_fonts)), w1)
                 else
                   (case download_google_font e family None w1 of
                      (Raised err, w2) \<Rightarrow> (Raised err, w2)
                    | (Returned fonts, w2) \<Rightarrow>
                        if truthy_dict fonts then (Returned fonts, w2) else load_default w2))
          else load_default w)"

section \<open>Reading the trace\<close>

text \<open>The URLs of the font files requested, and all network requests, in order.\<close>

fun font_downloads :: "event list \<Rightarrow> url list" where
  "font_downloads [] = []"
| "font_downloads (GetFont u # evs) = u # font_downloads evs"
| "font_downloads (ev # evs) = font_downloads evs"

fun network_requests :: "event list \<Rightarrow> event list" where
  "network_requests [] = []"
| "network_requests (GetFont u # evs) = GetFont u # network_requests evs"
| "network_requests (GetCatalog f ws # evs) = GetCatalog f ws # network_requests evs"
| "network_requests (ev # evs) = network_requests evs"

section \<open>Concrete worlds for the examples\<close>

definition empty_world :: world where
  "empty_world = \<lparr>files = (\<lambda>p. None), trace = []\<rparr>"

text \<open>A fonts directory that holds a regular and a bold file of the family Lightning.\<close>

definition lightning_world :: world where
  "lightning_world =
     \<lparr>files = (\<lambda>p. if p = ''fonts/Lightning-Regular.ttf'' \<or> p = ''fonts/Lightning-Bold.ttf''
                     then Some [0] else None),
      trace = []\<rparr>"

text \<open>A fonts directory that holds three regular files of the family NRT.\<close>

definition nrt_world :: world where
  "nrt_world =
     \<lparr>files = (\<lambda>p. if p = ''fonts/NRT-Reg.ttf'' \<or> p = ''fonts/NRT-Regular.ttf'' \<or> p = ''fonts/NRT.ttf''
                     then Some [0] else None),
      trace = []\<rparr>"

text \<open>No network: every request fails.\<close>

definition offline :: env where
  "offline =
     \<lparr>mkdir_ok = True,
      catalog_response = (\<lambda>family weights. Inl RequestException),
      font_response = (\<lambda>u. Inl RequestException),
      disk_fault = (\<lambda>p. NoFault)\<rparr>"

text \<open>A fonts directory that holds the three bundled Roboto files.\<close>

definition roboto_world :: world where
  "roboto_world =
     \<lparr>files = (\<lambda>p. if p = ''fonts/Roboto-Bold.ttf'' \<or> p = ''fonts/Roboto-Regular.ttf''
                      \<or> p = ''fonts/Roboto-Light.ttf''
                     then Some [0] else None),
      trace = []\<rparr>"

text \<open>A catalog answer whose blocks give no weight with a URL.\<close>

definition empty_catalog :: env where
  "empty_catalog =
     \<lparr>mkdir_ok = True,
      catalog_response =
        (\<lambda>family weights. Inr [Block (Some 400) None, Block None (Some ''https://h/a.ttf'')]),
      font_response = (\<lambda>u. Inl RequestException),
      disk_fault = (\<lambda>p. NoFault)\<rparr>"

text \<open>A fonts directory in which the bundled light file is missing.\<close>

definition two_roboto_world :: world where
  "two_roboto_world =
     \<lparr>files = (\<lambda>p. if p = ''fonts/Roboto-Bold.ttf'' \<or> p = ''fonts/Roboto-Regular.ttf''
                     then Some [0] else None),
      trace = []\<rparr>"

text \<open>A disk that fills up: every write stops after two bytes.\<close>

definition disk_full :: env where
  "disk_full =
     \<lparr>mkdir_ok = True,
      catalog_response =
        (\<lambda>family weights. Inr [Block (Some 400) (Some ''https://h/r.woff2'')]),
      font_response = (\<lambda>u. Inr [1, 2, 3, 4]),
      disk_fault = (\<lambda>p. WriteFault 2)\<rparr>"

text \<open>A catalog that offers the weights 400 and 700, and serves both files.\<close>

definition noto_catalog :: env where
  "noto_catalog =
     \<lparr>mkdir_ok = True,
      catalog_response =
        (\<lambda>family weights. Inr [Block (Some 400) (Some ''https://h/r.woff2''),
                               Block (Some 700) (Some ''https://h/b.woff2'')]),
      font_response =
        (\<lambda>u. if u = ''https://h/r.woff2'' then Inr [4, 0, 0]
             else if u = ''https://h/b.woff2'' then Inr [7, 0, 0]
             else Inl RequestException),
      disk_fault = (\<lambda>p. NoFault)\<rparr>"


section \<open>Cache file names\<close>

lemma length_lower [simp]: "length (lower s) = length s"
  by (simp add: lower_def)

lemma length_replace_space [simp]: "length (replace_space s) = length s"
  by (simp add: replace_space_def)

lemma length_font_name_safe [simp]: "length (font_name_safe f) = length f"
  by (simp add: font_name_safe_def)

lemma split_at_first:
  "c \<notin> set p \<Longrightarrow> c \<notin> set q \<Longrightarrow> p @ c # r = q @ c # s \<Longrightarrow> p = q \<and> r = s"
proof (induction p arbitrary: q)
  case Nil
  then show ?case by (cases q) auto
next
  case (Cons x p)
  then show ?case by (cases q) auto
qed

lemma split_at_last:
  assumes "c \<notin> set a" "c \<notin> set b" "xs @ c # a = ys @ c # b"
  shows "xs = ys \<and> a = b"
proof -
  have "rev (xs @ c # a) = rev (ys @ c # b)"
    using assms(3) by simp
  then have "rev a @ c # rev xs = rev b @ c # rev ys"
    by simp
  moreover have "c \<notin> set (rev a)" "c \<notin> set (rev b)"
    using assms by simp_all
  ultimately have "rev a = rev b \<and> rev xs = rev ys"
    by (rule split_at_first [rotated 2])
  then show ?thesis by simp
qed

lemma weight_key_cases:
  "weight_key w = ''light'' \<or> weight_key w = ''regular'' \<or> weight_key w = ''bold''"
  by (simp add: weight_key_def dict_get_def weight_map_def)

lemma file_ext_cases: "file_ext u = ''woff2'' \<or> file_ext u = ''ttf''"
  by (simp add: file_ext_def)

lemma label_has_no_underscore: "CHR ''_'' \<notin> set (weight_key w @ ''.'' @ file_ext u)"
  using weight_key_cases [of w] file_ext_cases [of u] by auto

lemma file_ext_has_no_dot: "CHR ''.'' \<notin> set (file_ext u)"
  using file_ext_cases [of u] by auto

text \<open>
  Claim C6, as amended. The cache file name is a function of the normalised family name
  (spaces replaced by underscores, then lower case), the weight label and the extension,
  and it determines all three: two requests get the same file name exactly when their
  normalised family names, their weight labels and their extensions are equal. Family
  names that differ only in case, or in spaces against underscores, share their files.
\<close>

theorem cache_filename_injective:
  "font_filename f1 (weight_key w1) (file_ext u1) = font_filename f2 (weight_key w2) (file_ext u2)
   \<longleftrightarrow> font_name_safe f1 = font_name_safe f2 \<and> weight_key w1 = weight_key w2
         \<and> file_ext u1 = file_ext u2"
proof
  assume "font_filename f1 (weight_key w1) (file_ext u1)
            = font_filename f2 (weight_key w2) (file_ext u2)"
  then have whole: "font_name_safe f1 @ CHR ''_'' # (weight_key w1 @ ''.'' @ file_ext u1)
               = font_name_safe f2 @ CHR ''_'' # (weight_key w2 @ ''.'' @ file_ext u2)"
    by (simp add: font_filename_def)
  from split_at_last [OF label_has_no_underscore label_has_no_underscore whole]
  have family: "font_name_safe f1 = font_name_safe f2"
    and rest: "weight_key w1 @ CHR ''.'' # file_ext u1 = weight_key w2 @ CHR ''.'' # file_ext u2"
    by simp_all
  from split_at_last [OF file_ext_has_no_dot file_ext_has_no_dot rest]
  show "font_name_safe f1 = font_name_safe f2 \<and> weight_key w1 = weight_key w2
          \<and> file_ext u1 = file_ext u2"
    using family by simp
next
  assume "font_name_safe f1 = font_name_safe f2 \<and> weight_key w1 = weight_key w2
            \<and> file_ext u1 = file_ext u2"
  then show "font_filename f1 (weight_key w1) (file_ext u1)
               = font_filename f2 (weight_key w2) (file_ext u2)"
    by (simp add: font_filename_def)
qed

theorem cache_filename_injective_witness:
  "font_filename ''Open Sans'' (weight_key 300) (file_ext ''https://h/a.woff2'')
     \<noteq> font_filename ''Open Sans'' (weight_key 700) (file_ext ''https://h/a.woff2'')"
  using cache_filename_injective
    [of "''Open Sans''" 300 "''https://h/a.woff2''" "''Open Sans''" 700 "''https://h/a.woff2''"]
  by (simp add: weight_key_def dict_get_def weight_map_def)

text \<open>
  Claim C6 as stated fails: the distinct families \<open>Open Sans\<close> and \<open>open_sans\<close> get
  the same cache file name for the regular weight.
\<close>

theorem cache_filename_collision:
  "(''Open Sans'', 400::int) \<noteq> (''open_sans'', 400) \<and>
   font_filename ''Open Sans'' (weight_key 400) (file_ext ''https://h/a.woff2'')
     = font_filename ''open_sans'' (weight_key 400) (file_ext ''https://h/a.woff2'')"
  by (simp add: font_filename_def font_name_safe_def lower_def lower_char_def replace_space_def)

section \<open>Closest-weight substitution\<close>

lemma min_by_first_minimal:
  "\<exists>pre post. best # xs = pre @ min_by f best xs # post
      \<and> (\<forall>y \<in> set pre. f (min_by f best xs) < f y)
      \<and> (\<forall>y \<in> set post. f (min_by f best xs) \<le> f y)"
proof (induction xs arbitrary: best rule: rev_induct)
  case Nil
  have "[best] = [] @ min_by f best [] # []" by simp
  then show ?case by fastforce
next
  case (snoc x xs)
  have step: "min_by f best (xs @ [x]) = (if f x < f (min_by f best xs) then x else min_by f best xs)" for best
    by (induction xs arbitrary: best) simp_all
  from snoc obtain pre post where
    split: "best # xs = pre @ min_by f best xs # post"
    and before: "\<forall>y \<in> set pre. f (min_by f best xs) < f y"
    and after: "\<forall>y \<in> set post. f (min_by f best xs) \<le> f y"
    by blast
  show ?case
  proof (cases "f x < f (min_by f best xs)")
    case True
    have "best # xs @ [x] = (best # xs) @ min_by f best (xs @ [x]) # []"
      using True by (simp add: step)
    moreover have "\<forall>y \<in> set (best # xs). f (min_by f best (xs @ [x])) < f y"
    proof
      fix y assume "y \<in> set (best # xs)"
      then have "y \<in> set pre \<or> y = min_by f best xs \<or> y \<in> set post"
        using split by (metis Un_iff set_ConsD set_append)
      then show "f (min_by f best (xs @ [x])) < f y"
        using True before after by (auto simp: step)
    qed
    ultimately show ?thesis by (metis empty_iff list.set(1))
  next
    case False
    have "best # xs @ [x] = pre @ min_by f best (xs @ [x]) # (post @ [x])"
      using False split by (simp add: step)
    moreover have "\<forall>y \<in> set pre. f (min_by f best (xs @ [x])) < f y"
      using False before by (simp add: step)
    moreover have "\<forall>y \<in> set (post @ [x]). f (min_by f best (xs @ [x])) \<le> f y"
      using False after by (auto simp: step)
    ultimately show ?thesis by blast
  qed
qed


lemma dict_get_in_keys:
  assumes "k \<in> set (map fst d)"
  obtains v where "dict_get d k = Some v"
proof -
  have "map_of d k \<noteq> None"
    using assms by (simp add: map_of_eq_None_iff)
  then show ?thesis
    using that by (auto simp: dict_get_def)
qed


text \<open>
  Claim C4, as amended. When the catalog is not empty and does not contain the requested
  weight, the URL used is that of a catalog weight at the smallest absolute distance from
  the requested one; among several weights at that distance the one that entered the
  catalog first is used (not the numerically lower one). For a catalog with exactly the
  weights 100 and 900 and the request 400 the entry of 100 is used, in whatever order
  the two were parsed.
\<close>

theorem select_url_closest:
  "(weight_url_map \<noteq> [] \<and> dict_get weight_url_map weight = None \<longrightarrow>
      (\<exists>pre k post u.
          map fst weight_url_map = pre @ k # post
        \<and> (\<forall>k' \<in> set pre. \<bar>k - weight\<bar> < \<bar>k' - weight\<bar>)
        \<and> (\<forall>k' \<in> set post. \<bar>k - weight\<bar> \<le> \<bar>k' - weight\<bar>)
        \<and> dict_get weight_url_map k = Some u
        \<and> select_url weight_url_map weight = Returned (Some u)))
   \<and> (set (map fst m) = {100, 900} \<and> dict_get m 100 = Some urlA
        \<longrightarrow> select_url m 400 = Returned (Some urlA))"
proof (intro conjI impI)
  assume a: "weight_url_map \<noteq> [] \<and> dict_get weight_url_map weight = None"
  then obtain k0 rest where m: "map fst weight_url_map = k0 # rest"
    by (cases weight_url_map) auto
  define k where "k = min_by (\<lambda>x. \<bar>x - weight\<bar>) k0 rest"
  have cw: "closest_weight weight_url_map weight = Some k"
    by (simp add: closest_weight_def py_min_def m k_def)
  from min_by_first_minimal [of k0 rest "\<lambda>x. \<bar>x - weight\<bar>"]
  obtain pre post where
    split: "map fst weight_url_map = pre @ k # post"
    and before: "\<forall>y \<in> set pre. \<bar>k - weight\<bar> < \<bar>y - weight\<bar>"
    and after: "\<forall>y \<in> set post. \<bar>k - weight\<bar> \<le> \<bar>y - weight\<bar>"
    unfolding k_def [symmetric] m by blast
  have "k \<in> set (map fst weight_url_map)"
    using split by simp
  then obtain u where u: "dict_get weight_url_map k = Some u"
    by (rule dict_get_in_keys)
  have "select_url weight_url_map weight = Returned (Some u)"
    using a cw u by (simp add: select_url_def)
  then have "map fst weight_url_map = pre @ k # post
        \<and> (\<forall>k' \<in> set pre. \<bar>k - weight\<bar> < \<bar>k' - weight\<bar>)
        \<and> (\<forall>k' \<in> set post. \<bar>k - weight\<bar> \<le> \<bar>k' - weight\<bar>)
        \<and> dict_get weight_url_map k = Some u
        \<and> select_url weight_url_map weight = Returned (Some u)"
    using split before after u by simp
  then show "\<exists>pre k post u.
          map fst weight_url_map = pre @ k # post
        \<and> (\<forall>k' \<in> set pre. \<bar>k - weight\<bar> < \<bar>k' - weight\<bar>)
        \<and> (\<forall>k' \<in> set post. \<bar>k - weight\<bar> \<le> \<bar>k' - weight\<bar>)
        \<and> dict_get weight_url_map k = Some u
        \<and> select_url weight_url_map weight = Returned (Some u)"
    by (intro exI)
next
  assume b: "set (map fst m) = {100, 900} \<and> dict_get m 100 = Some urlA"
  then have ne: "m \<noteq> []" by auto
  have none: "dict_get m 400 = None"
    using b by (simp add: dict_get_def map_of_eq_None_iff)
  obtain k0 rest where m: "map fst m = k0 # rest"
    using ne by (cases m) auto
  define k where "k = min_by (\<lambda>x. \<bar>x - 400\<bar>) k0 rest"
  have cw: "closest_weight m 400 = Some k"
    by (simp add: closest_weight_def py_min_def m k_def)
  from min_by_first_minimal [of k0 rest "\<lambda>x. \<bar>x - 400\<bar>"]
  obtain pre post where
    split: "map fst m = pre @ k # post"
    and before: "\<forall>y \<in> set pre. \<bar>k - 400\<bar> < \<bar>y - 400\<bar>"
    and after: "\<forall>y \<in> set post. \<bar>k - 400\<bar> \<le> \<bar>y - 400\<bar>"
    unfolding k_def [symmetric] m by blast
  have "k \<in> set (map fst m)"
    using split by simp
  then have kin: "k = 100 \<or> k = 900"
    using b by simp
  have "100 \<in> set (map fst m)"
    using b by simp
  then have "100 \<in> set pre \<or> 100 = k \<or> 100 \<in> set post"
    unfolding split by auto
  then have "\<bar>k - 400\<bar> \<le> \<bar>100 - 400\<bar>"
  proof (elim disjE)
    assume "100 \<in> set pre"
    then have "\<bar>k - 400\<bar> < \<bar>100 - 400\<bar>" using before by (rule_tac bspec)
    then show ?thesis by simp
  next
    assume "100 = k"
    then show ?thesis by simp
  next
    assume "100 \<in> set post"
    then show ?thesis using after by (rule_tac bspec)
  qed
  with kin have "k = 100" by auto
  then show "select_url m 400 = Returned (Some urlA)"
    using b none ne cw by (simp add: select_url_def)
qed

theorem select_url_closest_witness:
  "[(500::int, ''https://h/a.woff2''), (300, ''https://h/b.woff2'')] \<noteq> []
   \<and> dict_get [(500::int, ''https://h/a.woff2''), (300, ''https://h/b.woff2'')] 400 = None
   \<and> (\<exists>pre k post u.
          map fst [(500::int, ''https://h/a.woff2''), (300, ''https://h/b.woff2'')] = pre @ k # post
        \<and> (\<forall>k' \<in> set pre. \<bar>k - 400\<bar> < \<bar>k' - 400\<bar>)
        \<and> (\<forall>k' \<in> set post. \<bar>k - 400\<bar> \<le> \<bar>k' - 400\<bar>)
        \<and> dict_get [(500::int, ''https://h/a.woff2''), (300, ''https://h/b.woff2'')] k = Some u
        \<and> select_url [(500, ''https://h/a.woff2''), (300, ''https://h/b.woff2'')] 400
            = Returned (Some u))
   \<and> set (map fst [(900::int, ''https://h/b.woff2''), (100, ''https://h/a.woff2'')]) = {100, 900}
   \<and> dict_get [(900::int, ''https://h/b.woff2''), (100, ''https://h/a.woff2'')] 100
        = Some ''https://h/a.woff2''
   \<and> select_url [(900, ''https://h/b.woff2''), (100, ''https://h/a.woff2'')] 400
        = Returned (Some ''https://h/a.woff2'')"
proof -
  have h1: "[(500::int, ''https://h/a.woff2''), (300, ''https://h/b.woff2'')] \<noteq> []
     \<and> dict_get [(500::int, ''https://h/a.woff2''), (300, ''https://h/b.woff2'')] 400 = None"
    by (simp add: dict_get_def)
  have "set (map fst [(900::int, ''https://h/b.woff2''), (100, ''https://h/a.woff2'')]) = {100, 900}"
    by auto
  moreover have "dict_get [(900::int, ''https://h/b.woff2''), (100, ''https://h/a.woff2'')] 100
      = Some ''https://h/a.woff2''"
    by (simp add: dict_get_def)
  ultimately have h2:
    "set (map fst [(900::int, ''https://h/b.woff2''), (100, ''https://h/a.woff2'')]) = {100, 900}
     \<and> dict_get [(900::int, ''https://h/b.woff2''), (100, ''https://h/a.woff2'')] 100
        = Some ''https://h/a.woff2''"
    by (rule conjI)
  from select_url_closest
    [where weight_url_map = "[(500, ''https://h/a.woff2''), (300, ''https://h/b.woff2'')]"
       and weight = 400
       and m = "[(900, ''https://h/b.woff2''), (100, ''https://h/a.woff2'')]"
       and urlA = "''https://h/a.woff2''"]
  show ?thesis
    using h1 h2 by blast
qed

text \<open>
  Claim C4 as stated fails on a tie: with 500 parsed before 300 and neither equal to the
  requested 400, the entry of 500 is used, not that of the lower weight 300.
\<close>

theorem select_url_tie_counterexample:
  "parse_blocks [] [Block (Some 500) (Some ''https://h/a.woff2''),
                    Block (Some 300) (Some ''https://h/b.woff2'')]
      = [(500, ''https://h/a.woff2''), (300, ''https://h/b.woff2'')]
   \<and> select_url [(500, ''https://h/a.woff2''), (300, ''https://h/b.woff2'')] 400
      = Returned (Some ''https://h/a.woff2'')
   \<and> select_url [(500, ''https://h/a.woff2''), (300, ''https://h/b.woff2'')] 400
      \<noteq> Returned (dict_get [(500::int, ''https://h/a.woff2''), (300, ''https://h/b.woff2'')] 300)"
  by (simp add: select_url_def dict_get_def closest_weight_def py_min_def)

section \<open>The scan of the local fonts directory\<close>

lemma startswith_append: "startswith a sub \<Longrightarrow> startswith (a @ b) sub"
  by (induction a sub rule: startswith.induct) simp_all

lemma str_in_append_left: "str_in sub a \<Longrightarrow> str_in sub (a @ b)"
proof (induction a)
  case Nil
  then show ?case by (cases b) simp_all
next
  case (Cons c a)
  then show ?case using startswith_append [of "c # a" sub b] by auto
qed

lemma str_in_append_right: "str_in sub b \<Longrightarrow> str_in sub (a @ b)"
  by (induction a) simp_all

lemma lower_append: "lower (a @ b) = lower a @ lower b"
  by (simp add: lower_def)

lemma map_fst_dict_set:
  "map fst (dict_set d k v) = (if k \<in> set (map fst d) then map fst d else map fst d @ [k])"
proof (induction d)
  case Nil
  then show ?case by simp
next
  case (Cons p d)
  obtain k' v' where p: "p = (k', v')" by (cases p)
  have "k \<in> set (map fst d) \<longleftrightarrow> (\<exists>x \<in> set d. fst x = k)"
    by auto
  then show ?case
    using Cons unfolding p by (cases "k' = k") (simp_all del: set_map)
qed

lemma keys_dict_set: "set (map fst (dict_set d k v)) = insert k (set (map fst d))"
  by (auto simp: map_fst_dict_set)

lemma dict_get_dict_set: "dict_get (dict_set d k v) k' = (if k' = k then Some v else dict_get d k')"
  by (induction d) (auto simp: dict_get_def)

lemma files_log [simp]: "files (log e w) = files w"
  by (simp add: log_def)

lemma trace_log [simp]: "trace (log e w) = trace w @ [e]"
  by (simp add: log_def)

lemma scan_local_step:
  "scan_local (p # ps) d w =
     scan_local ps
       (if files w (path_join FONTS_DIR p) \<noteq> None
        then dict_set d (classify p) (path_join FONTS_DIR p) else d)
       (log (Exists (path_join FONTS_DIR p)) w)"
  by (simp add: path_exists_def Let_def)

lemma scan_local_keys:
  "set (map fst (fst (scan_local ps d w))) \<subseteq> set (map fst d) \<union> classify ` set ps"
proof (induction ps arbitrary: d w)
  case Nil
  then show ?case by simp
next
  case (Cons p ps)
  let ?d = "if files w (path_join FONTS_DIR p) \<noteq> None
        then dict_set d (classify p) (path_join FONTS_DIR p) else d"
  have "set (map fst (fst (scan_local (p # ps) d w)))
          \<subseteq> set (map fst ?d) \<union> classify ` set ps"
    unfolding scan_local_step by (rule Cons)
  moreover have "set (map fst ?d) \<subseteq> insert (classify p) (set (map fst d))"
    using keys_dict_set [of d "classify p" "path_join FONTS_DIR p"] by auto
  ultimately show ?case by auto
qed

lemma classify_light: "str_in ''light'' (lower p) \<Longrightarrow> classify p = ''light''"
  by (simp add: classify_def)

text \<open>
  Claim C9. A local file is classified by substring tests on its whole lower-cased file
  name, family name included: light first, then bold or -bd, else regular. So for a
  family whose lower-cased name contains \<open>light\<close>, every one of its six patterns is
  classified light, and the scan stores nothing under another key.
\<close>

theorem family_name_decides_weight:
  "classify pattern =
     (if str_in ''light'' (lower pattern) then ''light''
      else if str_in ''bold'' (lower pattern) \<or> str_in ''-bd'' (lower pattern) then ''bold''
      else ''regular'')
   \<and> (str_in ''light'' (lower font_family) \<longrightarrow>
        (\<forall>p \<in> set (local_font_patterns font_family). classify p = ''light'')
        \<and> set (map fst (fst (scan_local (local_font_patterns font_family) [] w))) \<subseteq> {''light''})"
proof (intro conjI impI)
  show "classify pattern =
     (if str_in ''light'' (lower pattern) then ''light''
      else if str_in ''bold'' (lower pattern) \<or> str_in ''-bd'' (lower pattern) then ''bold''
      else ''regular'')"
    by (simp add: classify_def)
next
  assume l: "str_in ''light'' (lower font_family)"
  show all: "\<forall>p \<in> set (local_font_patterns font_family). classify p = ''light''"
  proof
    fix p assume "p \<in> set (local_font_patterns font_family)"
    then obtain suffix where "p = font_family @ suffix"
      by (auto simp: local_font_patterns_def)
    then have "str_in ''light'' (lower p)"
      using l by (simp add: lower_append str_in_append_left)
    then show "classify p = ''light''" by (rule classify_light)
  qed
  have "set (map fst (fst (scan_local (local_font_patterns font_family) [] w)))
          \<subseteq> set (map fst ([] :: (string, path) dict)) \<union> classify ` set (local_font_patterns font_family)"
    by (rule scan_local_keys)
  then show "set (map fst (fst (scan_local (local_font_patterns font_family) [] w))) \<subseteq> {''light''}"
    using all by auto
qed

theorem family_name_decides_weight_witness:
  "str_in ''light'' (lower ''Lightning'')
   \<and> classify ''Lightning-Regular.ttf'' = ''light''
   \<and> classify ''Lightning-Bold.ttf'' = ''light''
   \<and> fst (scan_local (local_font_patterns ''Lightning'') [] lightning_world)
        = [(''light'', ''fonts/Lightning-Bold.ttf'')]"
proof -
  have l: "str_in ''light'' (lower ''Lightning'')"
    by (simp add: lower_def lower_char_def)
  have r: "''Lightning-Regular.ttf'' \<in> set (local_font_patterns ''Lightning'')"
    and b: "''Lightning-Bold.ttf'' \<in> set (local_font_patterns ''Lightning'')"
    by (simp_all add: local_font_patterns_def)
  have s: "fst (scan_local (local_font_patterns ''Lightning'') [] lightning_world)
        = [(''light'', ''fonts/Lightning-Bold.ttf'')]"
    by code_simp
  from family_name_decides_weight [of "''Lightning-Regular.ttf''" "''Lightning''" lightning_world]
  show ?thesis using l r b s by blast
qed

lemma scan_local_get:
  "dict_get (fst (scan_local ps d w)) k =
     (let ms = filter (\<lambda>p. files w (path_join FONTS_DIR p) \<noteq> None \<and> classify p = k) ps
      in if ms = [] then dict_get d k else Some (path_join FONTS_DIR (last ms)))"
proof (induction ps arbitrary: d w)
  case Nil
  then show ?case by simp
next
  case (Cons p ps)
  let ?P = "\<lambda>p. files w (path_join FONTS_DIR p) \<noteq> None \<and> classify p = k"
  let ?d = "if files w (path_join FONTS_DIR p) \<noteq> None
        then dict_set d (classify p) (path_join FONTS_DIR p) else d"
  have ih: "dict_get (fst (scan_local (p # ps) d w)) k =
     (if filter ?P ps = [] then dict_get ?d k
      else Some (path_join FONTS_DIR (last (filter ?P ps))))"
    unfolding scan_local_step
    using Cons [of ?d "log (Exists (path_join FONTS_DIR p)) w"] by (simp add: Let_def)
  have eq: "dict_get ?d k = (if ?P p then Some (path_join FONTS_DIR p) else dict_get d k)"
    by (auto simp: dict_get_dict_set)
  show ?case
    unfolding ih eq by (auto simp: Let_def simp del: scan_local.simps)
qed

lemma dict_has_get: "dict_has d k \<longleftrightarrow> dict_get d k \<noteq> None"
  by (simp add: dict_has_def dict_get_def map_of_eq_None_iff)

lemma dict_get_setdefault_other:
  "k' \<noteq> k \<Longrightarrow> dict_get (setdefault d k v) k' = dict_get d k'"
  by (simp add: setdefault_def dict_get_dict_set)

lemma fill_local_regular:
  "dict_get d ''regular'' = Some r \<Longrightarrow> dict_get (fill_local d) ''regular'' = Some r"
  by (simp add: fill_local_def dict_get_setdefault_other)

lemma classify_suffix_bold: "classify (f @ ''-Bold.ttf'') \<noteq> ''regular''"
proof -
  have "str_in ''bold'' (lower ''-Bold.ttf'')"
    by (simp add: lower_def lower_char_def)
  then have "str_in ''bold'' (lower (f @ ''-Bold.ttf''))"
    unfolding lower_append by (rule str_in_append_right)
  then show ?thesis by (simp add: classify_def Let_def)
qed

lemma classify_suffix_bd: "classify (f @ ''-Bd.ttf'') \<noteq> ''regular''"
proof -
  have "str_in ''-bd'' (lower ''-Bd.ttf'')"
    by (simp add: lower_def lower_char_def)
  then have "str_in ''-bd'' (lower (f @ ''-Bd.ttf''))"
    unfolding lower_append by (rule str_in_append_right)
  then show ?thesis by (simp add: classify_def Let_def)
qed

lemma classify_suffix_light: "classify (f @ ''-Light.ttf'') \<noteq> ''regular''"
proof -
  have "str_in ''light'' (lower ''-Light.ttf'')"
    by (simp add: lower_def lower_char_def)
  then have "str_in ''light'' (lower (f @ ''-Light.ttf''))"
    unfolding lower_append by (rule str_in_append_right)
  then show ?thesis by (simp add: classify_def Let_def)
qed

text \<open>
  Claim C10. After the scan, a key holds the path of the last pattern of the fixed list
  (Reg, Regular, plain, Bold, Bd, Light) whose file exists and that is classified under that
  key: a later match overwrites an earlier one. In particular, when the plain file
  \<open>{family}.ttf\<close> exists and is classified regular, \<open>load_fonts\<close> returns it as the
  regular font, whether or not \<open>{family}-Reg.ttf\<close> and \<open>{family}-Regular.ttf\<close> exist.
\<close>

theorem later_pattern_wins:
  "dict_get (fst (scan_local (local_font_patterns family) [] w)) k =
     (let ms = filter (\<lambda>p. files w (path_join FONTS_DIR p) \<noteq> None \<and> classify p = k)
                 (local_font_patterns family)
      in if ms = [] then None else Some (path_join FONTS_DIR (last ms)))
   \<and> (family \<noteq> [] \<and> lower family \<noteq> ''roboto'' \<and> classify (family @ ''.ttf'') = ''regular''
        \<and> files w (path_join FONTS_DIR (family @ ''.ttf'')) \<noteq> None
      \<longrightarrow> (\<exists>d. fst (load_fonts e (Some family) w) = Returned (Some d)
             \<and> dict_get d ''regular'' = Some (path_join FONTS_DIR (family @ ''.ttf''))))"
proof (intro conjI impI)
  show "dict_get (fst (scan_local (local_font_patterns family) [] w)) k =
     (let ms = filter (\<lambda>p. files w (path_join FONTS_DIR p) \<noteq> None \<and> classify p = k)
                 (local_font_patterns family)
      in if ms = [] then None else Some (path_join FONTS_DIR (last ms)))"
  proof -
    have "dict_get ([] :: (string, path) dict) k = None"
      by (simp add: dict_get_def)
    then show ?thesis
      unfolding scan_local_get by (simp only:)
  qed
next
  assume a: "family \<noteq> [] \<and> lower family \<noteq> ''roboto'' \<and> classify (family @ ''.ttf'') = ''regular''
        \<and> files w (path_join FONTS_DIR (family @ ''.ttf'')) \<noteq> None"
  obtain local_fonts w1 where s: "scan_local (local_font_patterns family) [] w = (local_fonts, w1)"
    by (cases "scan_local (local_font_patterns family) [] w")
  let ?P = "\<lambda>p. files w (path_join FONTS_DIR p) \<noteq> None \<and> classify p = ''regular''"
  have "\<exists>ms. filter ?P (local_font_patterns family) = ms @ [family @ ''.ttf'']"
    using a classify_suffix_bold [of family] classify_suffix_bd [of family]
      classify_suffix_light [of family]
    by (simp add: local_font_patterns_def)
  then obtain ms where "filter ?P (local_font_patterns family) = ms @ [family @ ''.ttf'']"
    by blast
  then have "dict_get (fst (scan_local (local_font_patterns family) [] w)) ''regular''
      = Some (path_join FONTS_DIR (family @ ''.ttf''))"
    unfolding scan_local_get by (simp add: Let_def)
  then have reg: "dict_get local_fonts ''regular'' = Some (path_join FONTS_DIR (family @ ''.ttf''))"
    using s by simp
  then have ne: "local_fonts \<noteq> []"
    by (auto simp: dict_get_def)
  have "fst (load_fonts e (Some family) w) = Returned (Some (fill_local local_fonts))"
    using a s ne by (simp add: load_fonts_def)
  moreover have "dict_get (fill_local local_fonts) ''regular''
      = Some (path_join FONTS_DIR (family @ ''.ttf''))"
    using reg by (rule fill_local_regular)
  ultimately show "\<exists>d. fst (load_fonts e (Some family) w) = Returned (Some d)
             \<and> dict_get d ''regular'' = Some (path_join FONTS_DIR (family @ ''.ttf''))"
    by blast
qed

theorem later_pattern_wins_witness:
  "''NRT'' \<noteq> [] \<and> lower ''NRT'' \<noteq> ''roboto'' \<and> classify (''NRT'' @ ''.ttf'') = ''regular''
   \<and> files nrt_world (path_join FONTS_DIR (''NRT'' @ ''.ttf'')) \<noteq> None
   \<and> files nrt_world (path_join FONTS_DIR (''NRT'' @ ''-Regular.ttf'')) \<noteq> None
   \<and> files nrt_world (path_join FONTS_DIR (''NRT'' @ ''-Reg.ttf'')) \<noteq> None
   \<and> (\<exists>d. fst (load_fonts offline (Some ''NRT'') nrt_world) = Returned (Some d)
          \<and> dict_get d ''regular'' = Some ''fonts/NRT.ttf'')"
proof -
  have h: "''NRT'' \<noteq> [] \<and> lower ''NRT'' \<noteq> ''roboto'' \<and> classify (''NRT'' @ ''.ttf'') = ''regular''
   \<and> files nrt_world (path_join FONTS_DIR (''NRT'' @ ''.ttf'')) \<noteq> None"
    by (simp add: lower_def lower_char_def classify_def nrt_world_def path_join_def FONTS_DIR_def)
  have g: "files nrt_world (path_join FONTS_DIR (''NRT'' @ ''-Regular.ttf'')) \<noteq> None
   \<and> files nrt_world (path_join FONTS_DIR (''NRT'' @ ''-Reg.ttf'')) \<noteq> None"
    by (simp add: nrt_world_def path_join_def FONTS_DIR_def)
  have p: "path_join FONTS_DIR (''NRT'' @ ''.ttf'') = ''fonts/NRT.ttf''"
    by (simp add: path_join_def FONTS_DIR_def)
  from later_pattern_wins [of "''NRT''" nrt_world "''regular''" offline]
  show ?thesis using h g p by simp
qed

section \<open>The default fallback\<close>

lemma scan_local_files: "files (snd (scan_local ps d w)) = files w"
proof (induction ps arbitrary: d w)
  case Nil
  then show ?case by simp
next
  case (Cons p ps)
  show ?case unfolding scan_local_step by (simp add: Cons)
qed

lemma scan_local_none:
  "\<forall>p \<in> set ps. files w (path_join FONTS_DIR p) = None \<Longrightarrow> fst (scan_local ps d w) = d"
proof (induction ps arbitrary: d w)
  case Nil
  then show ?case by simp
next
  case (Cons p ps)
  then show ?case unfolding scan_local_step by simp
qed

lemma verify_fonts_step:
  "verify_fonts ((weight, p) # items) w =
     (if files w p = None then (False, log (Exists p) w)
      else verify_fonts items (log (Exists p) w))"
  by (simp add: path_exists_def)

lemma verify_fonts_files: "files (snd (verify_fonts items w)) = files w"
proof (induction items arbitrary: w)
  case Nil
  then show ?case by simp
next
  case (Cons item items)
  obtain weight p where "item = (weight, p)" by (cases item)
  then show ?case
    by (simp add: Cons verify_fonts_step del: verify_fonts.simps)
qed

lemma verify_fonts_result:
  "fst (verify_fonts items w) \<longleftrightarrow> (\<forall>item \<in> set items. files w (snd item) \<noteq> None)"
proof (induction items arbitrary: w)
  case Nil
  then show ?case by simp
next
  case (Cons item items)
  obtain weight p where "item = (weight, p)" by (cases item)
  then show ?case
    by (simp add: Cons verify_fonts_step del: verify_fonts.simps)
qed

lemma verify_fonts_trace:
  "\<exists>n. trace (snd (verify_fonts items w)) = trace w @ map (\<lambda>item. Exists (snd item)) (take n items)"
proof (induction items arbitrary: w)
  case Nil
  then show ?case by simp
next
  case (Cons item items)
  obtain weight p where item: "item = (weight, p)" by (cases item)
  show ?case
  proof (cases "files w p = None")
    case True
    then have "trace (snd (verify_fonts (item # items) w))
         = trace w @ map (\<lambda>item. Exists (snd item)) (take (Suc 0) (item # items))"
      unfolding item verify_fonts_step by (simp del: verify_fonts.simps)
    then show ?thesis by blast
  next
    case False
    obtain n where
      "trace (snd (verify_fonts items (log (Exists p) w)))
         = trace (log (Exists p) w) @ map (\<lambda>item. Exists (snd item)) (take n items)"
      using Cons [of "log (Exists p) w"] by blast
    then have "trace (snd (verify_fonts (item # items) w))
         = trace w @ map (\<lambda>item. Exists (snd item)) (take (Suc n) (item # items))"
      unfolding item verify_fonts_step using False by (auto simp del: verify_fonts.simps)
    then show ?thesis by blast
  qed
qed

lemma load_default_result:
  "fst (load_default w) =
     Returned (if \<forall>item \<in> set default_fonts. files w (snd item) \<noteq> None
               then Some default_fonts else None)"
  using verify_fonts_result [of default_fonts w]
  by (cases "verify_fonts default_fonts w") (simp add: load_default_def)

lemma load_default_world:
  "snd (load_default w) = snd (verify_fonts default_fonts w)"
  by (cases "verify_fonts default_fonts w") (simp add: load_default_def)

text \<open>
  Claim C8. When no family is given, or the empty one, or one that is \<open>roboto\<close> in lower
  case, \<open>load_fonts\<close> is the default stage alone: the only calls to the outside are the
  existence checks of the three Roboto files, in their order and up to the first missing
  one; there is no scan of the override patterns, no \<open>mkdir\<close>, no request and no write,
  and the file system is unchanged.
\<close>

theorem default_family_goes_to_fallback:
  assumes "font_family = None \<or> font_family = Some [] 
           \<or> (\<exists>family. font_family = Some family \<and> lower family = ''roboto'')"
  shows "load_fonts e font_family w = load_default w
       \<and> files (snd (load_fonts e font_family w)) = files w
       \<and> (\<exists>n. trace (snd (load_fonts e font_family w))
               = trace w @ take n [Exists ''fonts/Roboto-Bold.ttf'',
                                   Exists ''fonts/Roboto-Regular.ttf'',
                                   Exists ''fonts/Roboto-Light.ttf''])
       \<and> fst (load_fonts e font_family w) =
           Returned (if files w ''fonts/Roboto-Bold.ttf'' \<noteq> None
                        \<and> files w ''fonts/Roboto-Regular.ttf'' \<noteq> None
                        \<and> files w ''fonts/Roboto-Light.ttf'' \<noteq> None
                     then Some [(''bold'', ''fonts/Roboto-Bold.ttf''),
                                (''regular'', ''fonts/Roboto-Regular.ttf''),
                                (''light'', ''fonts/Roboto-Light.ttf'')]
                     else None)"
proof -
  have eq: "load_fonts e font_family w = load_default w"
    using assms by (auto simp: load_fonts_def)
  have df: "default_fonts = [(''bold'', ''fonts/Roboto-Bold.ttf''),
                                (''regular'', ''fonts/Roboto-Regular.ttf''),
                                (''light'', ''fonts/Roboto-Light.ttf'')]"
    by (simp add: default_fonts_def path_join_def FONTS_DIR_def)
  have f: "files (snd (load_default w)) = files w"
    by (simp add: load_default_world verify_fonts_files)
  obtain n where "trace (snd (load_default w))
      = trace w @ map (\<lambda>item. Exists (snd item)) (take n default_fonts)"
    using verify_fonts_trace [of default_fonts w] unfolding load_default_world by blast
  then have "trace (snd (load_default w))
      = trace w @ take n [Exists ''fonts/Roboto-Bold.ttf'',
                                   Exists ''fonts/Roboto-Regular.ttf'',
                                   Exists ''fonts/Roboto-Light.ttf'']"
    unfolding df by (simp add: take_map [symmetric])
  then have t: "\<exists>n. trace (snd (load_default w))
      = trace w @ take n [Exists ''fonts/Roboto-Bold.ttf'',
                                   Exists ''fonts/Roboto-Regular.ttf'',
                                   Exists ''fonts/Roboto-Light.ttf'']"
    by blast
  have r: "fst (load_default w) =
           Returned (if files w ''fonts/Roboto-Bold.ttf'' \<noteq> None
                        \<and> files w ''fonts/Roboto-Regular.ttf'' \<noteq> None
                        \<and> files w ''fonts/Roboto-Light.ttf'' \<noteq> None
                     then Some [(''bold'', ''fonts/Roboto-Bold.ttf''),
                                (''regular'', ''fonts/Roboto-Regular.ttf''),
                                (''light'', ''fonts/Roboto-Light.ttf'')]
                     else None)"
    unfolding load_default_result unfolding df by simp
  show ?thesis
    unfolding eq using f t r by simp
qed

theorem default_family_goes_to_fallback_witness:
  "lower ''RoBoTo'' = ''roboto''
   \<and> load_fonts offline (Some ''RoBoTo'') roboto_world = load_default roboto_world
   \<and> fst (load_fonts offline (Some ''RoBoTo'') roboto_world) =
        Returned (Some [(''bold'', ''fonts/Roboto-Bold.ttf''),
                        (''regular'', ''fonts/Roboto-Regular.ttf''),
                        (''light'', ''fonts/Roboto-Light.ttf'')])"
proof -
  have l: "lower ''RoBoTo'' = ''roboto''"
    by (simp add: lower_def lower_char_def)
  then have h: "Some ''RoBoTo'' = None \<or> Some ''RoBoTo'' = Some [] 
           \<or> (\<exists>family. Some ''RoBoTo'' = Some family \<and> lower family = ''roboto'')"
    by simp
  have f: "files roboto_world ''fonts/Roboto-Bold.ttf'' \<noteq> None
                        \<and> files roboto_world ''fonts/Roboto-Regular.ttf'' \<noteq> None
                        \<and> files roboto_world ''fonts/Roboto-Light.ttf'' \<noteq> None"
    by (simp add: roboto_world_def)
  note th = default_family_goes_to_fallback [OF h, of offline roboto_world]
  have eq: "load_fonts offline (Some ''RoBoTo'') roboto_world = load_default roboto_world"
    using th by (rule conjunct1)
  have "fst (load_fonts offline (Some ''RoBoTo'') roboto_world) =
           Returned (if files roboto_world ''fonts/Roboto-Bold.ttf'' \<noteq> None
                        \<and> files roboto_world ''fonts/Roboto-Regular.ttf'' \<noteq> None
                        \<and> files roboto_world ''fonts/Roboto-Light.ttf'' \<noteq> None
                     then Some [(''bold'', ''fonts/Roboto-Bold.ttf''),
                                (''regular'', ''fonts/Roboto-Regular.ttf''),
                                (''light'', ''fonts/Roboto-Light.ttf'')]
                     else None)"
    using th by (elim conjE)
  then have r: "fst (load_fonts offline (Some ''RoBoTo'') roboto_world) =
        Returned (Some [(''bold'', ''fonts/Roboto-Bold.ttf''),
                        (''regular'', ''fonts/Roboto-Regular.ttf''),
                        (''light'', ''fonts/Roboto-Light.ttf'')])"
    using f by simp
  show ?thesis
    using l eq r by (intro conjI)
qed

lemma select_url_empty: "select_url [] weight = Returned None"
  by (simp add: select_url_def dict_get_def)

lemma download_weight_empty: "download_weight e f [] weight d w = (Returned d, w)"
  by (simp add: download_weight_def select_url_empty)

lemma download_weights_empty: "download_weights e f [] weights d w = (Returned d, w)"
  by (induction weights) (simp_all add: download_weight_empty)

lemma backfill_empty: "backfill [] = []"
  by (simp add: backfill_def ensure_regular_def fill_from_regular_def dict_get_def)

lemma download_google_font_no_catalog:
  assumes "mkdir_ok e"
    and "catalog_response e f [300, 400, 700] = Inl err
         \<or> (\<exists>blocks. catalog_response e f [300, 400, 700] = Inr blocks \<and> parse_blocks [] blocks = [])"
  shows "download_google_font e f None w =
           (Returned None, log (GetCatalog f [300, 400, 700]) (log (Mkdir FONTS_CACHE_DIR) w))"
  using assms
  by (auto simp: download_google_font_def download_body_def Let_def download_weights_empty
        backfill_empty simp del: download_weights.simps)

lemma default_fonts_paths:
  "default_fonts = [(''bold'', ''fonts/Roboto-Bold.ttf''),
                    (''regular'', ''fonts/Roboto-Regular.ttf''),
                    (''light'', ''fonts/Roboto-Light.ttf'')]"
  by (simp add: default_fonts_def path_join_def FONTS_DIR_def)

lemma load_default_paths:
  "fst (load_default w) =
     Returned (if files w ''fonts/Roboto-Bold.ttf'' \<noteq> None
                  \<and> files w ''fonts/Roboto-Regular.ttf'' \<noteq> None
                  \<and> files w ''fonts/Roboto-Light.ttf'' \<noteq> None
               then Some [(''bold'', ''fonts/Roboto-Bold.ttf''),
                          (''regular'', ''fonts/Roboto-Regular.ttf''),
                          (''light'', ''fonts/Roboto-Light.ttf'')]
               else None)"
  unfolding load_default_result unfolding default_fonts_paths by simp

text \<open>
  Claim C7. For a family other than the default one, when none of the override files
  exists and the catalog request fails, or its answer yields no weight with a URL,
  \<open>load_fonts\<close> returns the three Roboto paths if all three files exist and \<open>None\<close>
  otherwise, never a part of them.
\<close>

theorem falls_through_to_default:
  assumes "family \<noteq> []" and "lower family \<noteq> ''roboto''"
    and "\<forall>pattern \<in> set (local_font_patterns family). files w (path_join FONTS_DIR pattern) = None"
    and "mkdir_ok e"
    and "catalog_response e family [300, 400, 700] = Inl err
         \<or> (\<exists>blocks. catalog_response e family [300, 400, 700] = Inr blocks
                      \<and> parse_blocks [] blocks = [])"
  shows "fst (load_fonts e (Some family) w) =
           Returned (if files w ''fonts/Roboto-Bold.ttf'' \<noteq> None
                        \<and> files w ''fonts/Roboto-Regular.ttf'' \<noteq> None
                        \<and> files w ''fonts/Roboto-Light.ttf'' \<noteq> None
                     then Some [(''bold'', ''fonts/Roboto-Bold.ttf''),
                                (''regular'', ''fonts/Roboto-Regular.ttf''),
                                (''light'', ''fonts/Roboto-Light.ttf'')]
                     else None)"
proof -
  obtain local_fonts w1 where s: "scan_local (local_font_patterns family) [] w = (local_fonts, w1)"
    by (cases "scan_local (local_font_patterns family) [] w")
  have "fst (scan_local (local_font_patterns family) [] w) = []"
    using assms(3) by (rule scan_local_none)
  then have l: "local_fonts = []"
    using s by simp
  have "files (snd (scan_local (local_font_patterns family) [] w)) = files w"
    by (rule scan_local_files)
  then have f1: "files w1 = files w"
    using s by simp
  let ?w2 = "log (GetCatalog family [300, 400, 700]) (log (Mkdir FONTS_CACHE_DIR) w1)"
  have d: "download_google_font e family None w1 = (Returned None, ?w2)"
    using assms(4,5) by (rule download_google_font_no_catalog)
  have "load_fonts e (Some family) w = load_default ?w2"
    using assms(1,2) s l d by (simp add: load_fonts_def)
  moreover have "files ?w2 = files w"
    using f1 by simp
  ultimately show ?thesis
    by (simp add: load_default_paths)
qed

theorem falls_through_to_default_witness:
  "fst (load_fonts offline (Some ''Noto Sans JP'') roboto_world) =
     Returned (Some [(''bold'', ''fonts/Roboto-Bold.ttf''),
                     (''regular'', ''fonts/Roboto-Regular.ttf''),
                     (''light'', ''fonts/Roboto-Light.ttf'')])
   \<and> fst (load_fonts empty_catalog (Some ''Noto Sans JP'') two_roboto_world) = Returned None"
proof -
  have n: "''Noto Sans JP'' \<noteq> []" and r: "lower ''Noto Sans JP'' \<noteq> ''roboto''"
    by (simp_all add: lower_def lower_char_def)
  have s1: "\<forall>pattern \<in> set (local_font_patterns ''Noto Sans JP'').
      files roboto_world (path_join FONTS_DIR pattern) = None"
    by (simp add: local_font_patterns_def roboto_world_def path_join_def FONTS_DIR_def)
  have s2: "\<forall>pattern \<in> set (local_font_patterns ''Noto Sans JP'').
      files two_roboto_world (path_join FONTS_DIR pattern) = None"
    by (simp add: local_font_patterns_def two_roboto_world_def path_join_def FONTS_DIR_def)
  have m1: "mkdir_ok offline" and m2: "mkdir_ok empty_catalog"
    by (simp_all add: offline_def empty_catalog_def)
  have c1: "catalog_response offline ''Noto Sans JP'' [300, 400, 700] = Inl RequestException
         \<or> (\<exists>blocks. catalog_response offline ''Noto Sans JP'' [300, 400, 700] = Inr blocks
                      \<and> parse_blocks [] blocks = [])"
    by (simp add: offline_def)
  have c2: "catalog_response empty_catalog ''Noto Sans JP'' [300, 400, 700] = Inl RequestException
         \<or> (\<exists>blocks. catalog_response empty_catalog ''Noto Sans JP'' [300, 400, 700] = Inr blocks
                      \<and> parse_blocks [] blocks = [])"
    by (simp add: empty_catalog_def)
  have a: "fst (load_fonts offline (Some ''Noto Sans JP'') roboto_world) =
     Returned (Some [(''bold'', ''fonts/Roboto-Bold.ttf''),
                     (''regular'', ''fonts/Roboto-Regular.ttf''),
                     (''light'', ''fonts/Roboto-Light.ttf'')])"
    using falls_through_to_default [OF n r s1 m1 c1] by (simp add: roboto_world_def)
  have b: "fst (load_fonts empty_catalog (Some ''Noto Sans JP'') two_roboto_world) = Returned None"
    using falls_through_to_default [OF n r s2 m2 c2] by (simp add: two_roboto_world_def)
  show ?thesis using a b by (rule conjI)
qed

section \<open>Every result has the three weights\<close>

lemma keys_dict_set_image: "fst ` set (dict_set d k v) = insert k (fst ` set d)"
  using keys_dict_set [of d k v] by simp

lemma keys_setdefault: "fst ` set (setdefault d k v) = insert k (fst ` set d)"
  by (auto simp: setdefault_def keys_dict_set_image dict_has_def)

lemma get_or_fetch_keys:
  "fst ` set (fst (get_or_fetch e f weight u d w))
     \<subseteq> insert (weight_key weight) (fst ` set d)"
proof -
  have "fst (get_or_fetch e f weight u d w) = d
      \<or> fst (get_or_fetch e f weight u d w) = dict_set d (weight_key weight) (cache_path f weight u)"
    by (simp add: get_or_fetch_def path_exists_def Let_def split: sum.splits prod.splits)
  then show ?thesis
  proof
    assume "fst (get_or_fetch e f weight u d w) = d"
    then show ?thesis by auto
  next
    assume "fst (get_or_fetch e f weight u d w)
      = dict_set d (weight_key weight) (cache_path f weight u)"
    then show ?thesis by (simp only: keys_dict_set_image)
  qed
qed

lemma download_weight_keys:
  assumes "download_weight e f m weight d w = (Returned d', w')"
  shows "fst ` set d' \<subseteq> insert (weight_key weight) (fst ` set d)"
proof -
  have "d' = d \<or> (\<exists>u. d' = fst (get_or_fetch e f weight u d w))"
  proof (cases "select_url m weight")
    case (Raised err)
    then show ?thesis using assms by (simp add: download_weight_def)
  next
    case (Returned weight_url)
    show ?thesis
    proof (cases weight_url)
      case None
      then show ?thesis using assms Returned by (simp add: download_weight_def)
    next
      case (Some u)
      then have "d' = d \<or> d' = fst (get_or_fetch e f weight u d w)"
        using assms Returned
        by (cases "get_or_fetch e f weight u d w") (auto simp: download_weight_def split: if_splits)
      then show ?thesis by blast
    qed
  qed
  then show ?thesis
    using get_or_fetch_keys by blast
qed

lemma download_weights_keys:
  "download_weights e f m weights d w = (Returned d', w')
     \<Longrightarrow> fst ` set d' \<subseteq> fst ` set d \<union> weight_key ` set weights"
proof (induction weights arbitrary: d w)
  case Nil
  then show ?case by simp
next
  case (Cons weight weights)
  obtain r w1 where step: "download_weight e f m weight d w = (r, w1)"
    by (cases "download_weight e f m weight d w")
  show ?case
  proof (cases r)
    case (Raised err)
    then show ?thesis using Cons.prems step by simp
  next
    case (Returned d1)
    then have "download_weights e f m weights d1 w1 = (Returned d', w')"
      using Cons.prems step by simp
    then have "fst ` set d' \<subseteq> fst ` set d1 \<union> weight_key ` set weights"
      by (rule Cons.IH)
    moreover have "fst ` set d1 \<subseteq> insert (weight_key weight) (fst ` set d)"
      using step Returned download_weight_keys by blast
    ultimately show ?thesis by auto
  qed
qed

lemma weight_key_label: "weight_key w \<in> {''light'', ''regular'', ''bold''}"
  using weight_key_cases [of w] by auto

lemma classify_label: "classify p \<in> {''light'', ''regular'', ''bold''}"
  by (simp add: classify_def Let_def)

lemma keys_ensure_regular:
  assumes "d \<noteq> []"
  shows "fst ` set (ensure_regular d) = insert ''regular'' (fst ` set d)"
proof (cases "dict_has d ''regular''")
  case True
  then show ?thesis by (auto simp: ensure_regular_def dict_has_def)
next
  case False
  obtain k v rest where "d = (k, v) # rest"
    using assms by (cases d) auto
  then have "ensure_regular d = dict_set d ''regular'' v"
    using False by (simp add: ensure_regular_def)
  then show ?thesis by (simp only: keys_dict_set_image)
qed

lemma keys_fill_from_regular:
  assumes "''regular'' \<in> fst ` set d"
  shows "fst ` set (fill_from_regular k d) = insert k (fst ` set d)"
proof -
  have "''regular'' \<in> set (map fst d)"
    using assms by simp
  then obtain r where r: "dict_get d ''regular'' = Some r"
    by (rule dict_get_in_keys)
  show ?thesis
  proof (cases "dict_has d k")
    case True
    then show ?thesis using r by (auto simp: fill_from_regular_def dict_has_def)
  next
    case False
    then have "fill_from_regular k d = dict_set d k r"
      using r by (simp add: fill_from_regular_def)
    then show ?thesis by (simp only: keys_dict_set_image)
  qed
qed

lemma keys_backfill:
  assumes "d \<noteq> []"
  shows "fst ` set (backfill d) = {''light'', ''regular'', ''bold''} \<union> fst ` set d"
proof -
  let ?d1 = "ensure_regular d"
  let ?d2 = "fill_from_regular ''bold'' ?d1"
  have k1: "fst ` set ?d1 = insert ''regular'' (fst ` set d)"
    using assms by (rule keys_ensure_regular)
  then have "''regular'' \<in> fst ` set ?d1" by simp
  then have k2: "fst ` set ?d2 = insert ''bold'' (fst ` set ?d1)"
    by (rule keys_fill_from_regular)
  then have "''regular'' \<in> fst ` set ?d2" using k1 by simp
  then have "fst ` set (fill_from_regular ''light'' ?d2) = insert ''light'' (fst ` set ?d2)"
    by (rule keys_fill_from_regular)
  then show ?thesis
    unfolding backfill_def k2 k1 by auto
qed

lemma keys_fill_local:
  assumes "d \<noteq> []"
  shows "fst ` set (fill_local d) = {''light'', ''regular'', ''bold''} \<union> fst ` set d"
proof (cases "dict_get d ''regular''")
  case None
  obtain k v rest where "d = (k, v) # rest"
    using assms by (cases d) auto
  then have "fill_local d = setdefault (setdefault (setdefault d ''regular'' v) ''bold'' v) ''light'' v"
    using None by (simp add: fill_local_def)
  then show ?thesis by (auto simp: keys_setdefault)
next
  case (Some r)
  then have "''regular'' \<in> fst ` set d"
    by (metis dict_get_def map_of_eq_None_iff option.discI)
  moreover have "fill_local d = setdefault (setdefault d ''bold'' r) ''light'' r"
    using Some by (simp add: fill_local_def)
  ultimately show ?thesis by (auto simp: keys_setdefault)
qed

lemma download_google_font_keys:
  assumes "fst (download_google_font e f weights_arg w) = Returned (Some d)"
  shows "fst ` set d = {''light'', ''regular'', ''bold''}"
proof -
  define weights where "weights = (case weights_arg of None \<Rightarrow> [300, 400, 700] | Some ws \<Rightarrow> ws)"
  define w0 where "w0 = log (Mkdir FONTS_CACHE_DIR) w"
  obtain r w1 where b: "download_body e f weights w0 = (r, w1)"
    by (cases "download_body e f weights w0")
  have r: "r = Returned (Some d)"
    using assms b unfolding download_google_font_def weights_def [symmetric] Let_def w0_def [symmetric]
    by (auto split: if_splits result.splits)
  define w1' where "w1' = log (GetCatalog f weights) w0"
  obtain blocks where c: "catalog_response e f weights = Inr blocks"
    using b r unfolding download_body_def Let_def by (auto split: sum.splits)
  obtain r2 w2 where l: "download_weights e f (parse_blocks [] blocks) weights [] w1' = (r2, w2)"
    by (cases "download_weights e f (parse_blocks [] blocks) weights [] w1'")
  obtain font_files where r2: "r2 = Returned font_files"
    and d: "backfill font_files \<noteq> []" "d = backfill font_files"
    using b r c l unfolding download_body_def Let_def w1'_def [symmetric]
    by (auto split: result.splits if_splits)
  have ne: "font_files \<noteq> []"
    using d(1) backfill_empty by auto
  have "fst ` set font_files \<subseteq> fst ` set ([] :: (string, path) dict) \<union> weight_key ` set weights"
    using l r2 download_weights_keys by blast
  moreover have "weight_key ` set weights \<subseteq> {''light'', ''regular'', ''bold''}"
    by (intro image_subsetI weight_key_label)
  ultimately have "fst ` set font_files \<subseteq> {''light'', ''regular'', ''bold''}"
    by auto
  then show ?thesis
    unfolding d(2) keys_backfill [OF ne] by auto
qed

text \<open>
  Claim C5. Whatever stage it comes from (local files, download, bundled default), a result
  of \<open>load_fonts\<close> that is not \<open>None\<close> has the keys light, regular and bold, and no
  other key.
\<close>

theorem result_has_all_weights:
  assumes "fst (load_fonts e font_family w) = Returned (Some d)"
  shows "dict_has d ''light'' \<and> dict_has d ''regular'' \<and> dict_has d ''bold''
       \<and> fst ` set d = {''light'', ''regular'', ''bold''}"
proof -
  have "fst ` set d = {''light'', ''regular'', ''bold''}"
  proof (cases "\<exists>family. font_family = Some family \<and> family \<noteq> [] \<and> lower family \<noteq> ''roboto''")
    case False
    then have "load_fonts e font_family w = load_default w"
      by (auto simp: load_fonts_def split: option.splits)
    then have "d = default_fonts"
      using assms by (simp add: load_default_result split: if_splits)
    then show ?thesis
      by (auto simp: default_fonts_def)
  next
    case True
    then obtain family where fam: "font_family = Some family" "family \<noteq> []" "lower family \<noteq> ''roboto''"
      by blast
    obtain local_fonts w1 where s: "scan_local (local_font_patterns family) [] w = (local_fonts, w1)"
      by (cases "scan_local (local_font_patterns family) [] w")
    show ?thesis
    proof (cases "local_fonts = []")
      case False
      then have dl: "d = fill_local local_fonts"
        using assms fam s by (simp add: load_fonts_def)
      have "fst ` set local_fonts \<subseteq> classify ` set (local_font_patterns family)"
        using scan_local_keys [of "local_font_patterns family" "[]" w] s by simp
      moreover have "classify ` set (local_font_patterns family) \<subseteq> {''light'', ''regular'', ''bold''}"
        by (intro image_subsetI classify_label)
      ultimately have "fst ` set local_fonts \<subseteq> {''light'', ''regular'', ''bold''}"
        by (rule subset_trans)
      then show ?thesis
        unfolding dl keys_fill_local [OF False] by auto
    next
      case True
      obtain r w2 where g: "download_google_font e family None w1 = (r, w2)"
        by (cases "download_google_font e family None w1")
      have lf: "load_fonts e font_family w =
          (case r of
             Raised err \<Rightarrow> (Raised err, w2)
           | Returned fonts \<Rightarrow> if truthy_dict fonts then (Returned fonts, w2) else load_default w2)"
        using fam s True g by (simp add: load_fonts_def)
      show ?thesis
      proof (cases r)
        case (Raised err)
        then show ?thesis using assms lf by simp
      next
        case (Returned fonts)
        show ?thesis
        proof (cases "truthy_dict fonts")
          case True
          then have "fonts = Some d"
            using assms lf Returned by simp
          then have "fst (download_google_font e family None w1) = Returned (Some d)"
            using g Returned by simp
          then show ?thesis by (rule download_google_font_keys)
        next
          case False
          then have "fst (load_default w2) = Returned (Some d)"
            using assms lf Returned by simp
          then have "d = default_fonts"
            by (simp add: load_default_result split: if_splits)
          then show ?thesis
            by (auto simp: default_fonts_def)
        qed
      qed
    qed
  qed
  then show ?thesis
    by (simp add: dict_has_def)
qed

theorem result_has_all_weights_witness:
  "fst (load_fonts offline (Some ''Lightning'') lightning_world) =
     Returned (Some [(''light'', ''fonts/Lightning-Bold.ttf''),
                     (''regular'', ''fonts/Lightning-Bold.ttf''),
                     (''bold'', ''fonts/Lightning-Bold.ttf'')])
   \<and> dict_has [(''light'', ''fonts/Lightning-Bold.ttf''),
                (''regular'', ''fonts/Lightning-Bold.ttf''),
                (''bold'', ''fonts/Lightning-Bold.ttf'')] ''light''
   \<and> dict_has [(''light'', ''fonts/Lightning-Bold.ttf''),
                (''regular'', ''fonts/Lightning-Bold.ttf''),
                (''bold'', ''fonts/Lightning-Bold.ttf'')] ''regular''
   \<and> dict_has [(''light'', ''fonts/Lightning-Bold.ttf''),
                (''regular'', ''fonts/Lightning-Bold.ttf''),
                (''bold'', ''fonts/Lightning-Bold.ttf'')] ''bold''"
proof -
  have r: "fst (load_fonts offline (Some ''Lightning'') lightning_world) =
     Returned (Some [(''light'', ''fonts/Lightning-Bold.ttf''),
                     (''regular'', ''fonts/Lightning-Bold.ttf''),
                     (''bold'', ''fonts/Lightning-Bold.ttf'')])"
    by code_simp
  from result_has_all_weights [OF r]
  show ?thesis using r by blast
qed

section \<open>Downloading into the cache\<close>


lemma get_or_fetch_fetch_failed:
  assumes "files w (cache_path f weight u) = None" and "font_response e u = Inl err"
  shows "get_or_fetch e f weight u d w =
           (d, log (GetFont u) (log (Exists (cache_path f weight u)) w))"
  using assms by (auto simp: get_or_fetch_def path_exists_def Let_def)

lemma get_or_fetch_written:
  assumes "files w (cache_path f weight u) = None" and "font_response e u = Inr content"
    and "disk_fault e (cache_path f weight u) = NoFault"
  shows "get_or_fetch e f weight u d w =
           (dict_set d (weight_key weight) (cache_path f weight u),
            (log (WriteBytes (cache_path f weight u) content)
               (log (GetFont u) (log (Exists (cache_path f weight u)) w)))
            \<lparr>files := (files w)(cache_path f weight u \<mapsto> content)\<rparr>)"
  using assms by (simp add: get_or_fetch_def path_exists_def write_bytes_def Let_def)

lemma get_or_fetch_open_failed:
  assumes "files w (cache_path f weight u) = None" and "font_response e u = Inr content"
    and "disk_fault e (cache_path f weight u) = OpenFault"
  shows "get_or_fetch e f weight u d w =
           (d, log (WriteBytes (cache_path f weight u) content)
                 (log (GetFont u) (log (Exists (cache_path f weight u)) w)))"
  using assms by (simp add: get_or_fetch_def path_exists_def write_bytes_def Let_def)

lemma get_or_fetch_write_failed:
  assumes "files w (cache_path f weight u) = None" and "font_response e u = Inr content"
    and "disk_fault e (cache_path f weight u) = WriteFault n"
  shows "get_or_fetch e f weight u d w =
           (d, (log (WriteBytes (cache_path f weight u) content)
                 (log (GetFont u) (log (Exists (cache_path f weight u)) w)))
               \<lparr>files := (files w)(cache_path f weight u \<mapsto> take n content)\<rparr>)"
  using assms by (simp add: get_or_fetch_def path_exists_def write_bytes_def Let_def)

text \<open>
  Claim C3, as amended. When the cache path does not exist and the request for the font
  fails, or the file cannot be opened for writing, the file system is as before: there is
  no file at the cache path, a later existence check is false, and the weight is not
  entered in \<open>font_files\<close>.
\<close>

theorem failed_fetch_leaves_no_file:
  assumes "files w (cache_path f weight u) = None"
    and "(\<exists>err. font_response e u = Inl err)
         \<or> (\<exists>content. font_response e u = Inr content
                \<and> disk_fault e (cache_path f weight u) = OpenFault)"
  shows "files (snd (get_or_fetch e f weight u d w)) = files w
       \<and> fst (path_exists (snd (get_or_fetch e f weight u d w)) (cache_path f weight u)) = False
       \<and> fst (get_or_fetch e f weight u d w) = d"
  using assms
  by (auto simp: get_or_fetch_fetch_failed get_or_fetch_open_failed path_exists_def)

theorem failed_fetch_leaves_no_file_witness:
  "files empty_world (cache_path ''Noto Sans JP'' 400 ''https://h/r.woff2'') = None
   \<and> font_response offline ''https://h/r.woff2'' = Inl RequestException
   \<and> files (snd (get_or_fetch offline ''Noto Sans JP'' 400 ''https://h/r.woff2'' [] empty_world))
        = files empty_world
   \<and> fst (path_exists
            (snd (get_or_fetch offline ''Noto Sans JP'' 400 ''https://h/r.woff2'' [] empty_world))
            (cache_path ''Noto Sans JP'' 400 ''https://h/r.woff2'')) = False
   \<and> fst (get_or_fetch offline ''Noto Sans JP'' 400 ''https://h/r.woff2'' [] empty_world) = []"
proof -
  have a: "files empty_world (cache_path ''Noto Sans JP'' 400 ''https://h/r.woff2'') = None"
    by (simp add: empty_world_def)
  have b: "font_response offline ''https://h/r.woff2'' = Inl RequestException"
    by (simp add: offline_def)
  then have c: "(\<exists>err. font_response offline ''https://h/r.woff2'' = Inl err)
         \<or> (\<exists>content. font_response offline ''https://h/r.woff2'' = Inr content
                \<and> disk_fault offline (cache_path ''Noto Sans JP'' 400 ''https://h/r.woff2'') = OpenFault)"
    by simp
  from failed_fetch_leaves_no_file [OF a c, of "[]"]
  show ?thesis using a b by simp
qed

text \<open>
  Claim C3 as stated fails: the bytes are written to the final path itself, so a write that
  stops after two of four bytes leaves the truncated file there; the existence check is
  then true, and a later call, even without network, returns that file as cached.
\<close>

theorem partial_write_counterexample:
  "files empty_world ''fonts/cache/noto_sans_jp_regular.woff2'' = None
   \<and> cache_path ''Noto Sans JP'' 400 ''https://h/r.woff2'' = ''fonts/cache/noto_sans_jp_regular.woff2''
   \<and> font_response disk_full ''https://h/r.woff2'' = Inr [1, 2, 3, 4]
   \<and> disk_fault disk_full ''fonts/cache/noto_sans_jp_regular.woff2'' = WriteFault 2
   \<and> fst (get_or_fetch disk_full ''Noto Sans JP'' 400 ''https://h/r.woff2'' [] empty_world) = []
   \<and> files (snd (get_or_fetch disk_full ''Noto Sans JP'' 400 ''https://h/r.woff2'' [] empty_world))
        ''fonts/cache/noto_sans_jp_regular.woff2'' = Some [1, 2]
   \<and> fst (path_exists
            (snd (get_or_fetch disk_full ''Noto Sans JP'' 400 ''https://h/r.woff2'' [] empty_world))
            ''fonts/cache/noto_sans_jp_regular.woff2'') = True
   \<and> fst (get_or_fetch offline ''Noto Sans JP'' 400 ''https://h/r.woff2'' []
            (snd (get_or_fetch disk_full ''Noto Sans JP'' 400 ''https://h/r.woff2'' [] empty_world)))
        = [(''regular'', ''fonts/cache/noto_sans_jp_regular.woff2'')]
   \<and> files (snd (load_fonts disk_full (Some ''Noto Sans JP'') empty_world))
        ''fonts/cache/noto_sans_jp_regular.woff2'' = Some [1, 2]"
  by code_simp

section \<open>The Noto Sans JP scenario\<close>

lemma font_downloads_append: "font_downloads (xs @ ys) = font_downloads xs @ font_downloads ys"
  by (induction xs rule: font_downloads.induct) simp_all

lemma font_downloads_log:
  "font_downloads (trace (log ev w)) = font_downloads (trace w) @ font_downloads [ev]"
  by (simp add: font_downloads_append)

lemma select_url_present:
  assumes "dict_get m weight = Some u" and "u \<noteq> []"
  shows "select_url m weight = Returned (Some u)"
  using assms by (simp add: select_url_def)

lemma select_url_nearest:
  assumes absent: "dict_get m weight = None"
    and k: "dict_get m k = Some u"
    and nearest: "\<forall>k' \<in> set (map fst m). k' \<noteq> k \<longrightarrow> \<bar>k - weight\<bar> < \<bar>k' - weight\<bar>"
  shows "select_url m weight = Returned (Some u)"
proof -
  have kin: "k \<in> set (map fst m)"
    using k by (metis dict_get_def map_of_eq_None_iff option.discI set_map)
  then obtain k0 rest where m: "map fst m = k0 # rest"
    by (cases m) auto
  define r where "r = min_by (\<lambda>x. \<bar>x - weight\<bar>) k0 rest"
  have cw: "closest_weight m weight = Some r"
    by (simp add: closest_weight_def py_min_def m r_def)
  from min_by_first_minimal [of k0 rest "\<lambda>x. \<bar>x - weight\<bar>"]
  obtain pre post where
    split: "map fst m = pre @ r # post"
    and before: "\<forall>y \<in> set pre. \<bar>r - weight\<bar> < \<bar>y - weight\<bar>"
    and after: "\<forall>y \<in> set post. \<bar>r - weight\<bar> \<le> \<bar>y - weight\<bar>"
    unfolding r_def [symmetric] m by blast
  have rin: "r \<in> set (map fst m)"
    unfolding split by simp
  have "k \<in> set pre \<or> k = r \<or> k \<in> set post"
    using kin unfolding split by auto
  then have le: "\<bar>r - weight\<bar> \<le> \<bar>k - weight\<bar>"
  proof (elim disjE)
    assume "k \<in> set pre"
    then have "\<bar>r - weight\<bar> < \<bar>k - weight\<bar>" using before by (rule_tac bspec)
    then show ?thesis by simp
  next
    assume "k = r"
    then show ?thesis by simp
  next
    assume "k \<in> set post"
    then show ?thesis using after by (rule_tac bspec)
  qed
  have "r = k"
  proof (rule ccontr)
    assume "r \<noteq> k"
    moreover have "r \<noteq> k \<longrightarrow> \<bar>k - weight\<bar> < \<bar>r - weight\<bar>"
      using nearest rin by (rule bspec)
    ultimately have "\<bar>k - weight\<bar> < \<bar>r - weight\<bar>"
      by simp
    then show False using le by simp
  qed
  then show ?thesis
    using absent k cw m by (auto simp: select_url_def)
qed

lemma download_weight_url:
  assumes "select_url m weight = Returned (Some u)" and "u \<noteq> []"
  shows "download_weight e f m weight d w =
           (Returned (fst (get_or_fetch e f weight u d w)), snd (get_or_fetch e f weight u d w))"
  using assms by (cases "get_or_fetch e f weight u d w") (simp add: download_weight_def)


lemma scan_local_trace:
  "trace (snd (scan_local ps d w)) = trace w @ map (\<lambda>p. Exists (path_join FONTS_DIR p)) ps"
proof (induction ps arbitrary: d w)
  case Nil
  then show ?case by simp
next
  case (Cons p ps)
  show ?case unfolding scan_local_step by (simp add: Cons)
qed

lemma font_downloads_exists [simp]: "font_downloads (map (\<lambda>p. Exists (g p)) ps) = []"
  by (induction ps) simp_all

lemma noto_paths:
  "cache_path ''Noto Sans JP'' 300 u = ''fonts/cache/noto_sans_jp_light.'' @ file_ext u"
  "cache_path ''Noto Sans JP'' 400 u = ''fonts/cache/noto_sans_jp_regular.'' @ file_ext u"
  "cache_path ''Noto Sans JP'' 700 u = ''fonts/cache/noto_sans_jp_bold.'' @ file_ext u"
  by (simp_all add: cache_path_def path_join_def FONTS_CACHE_DIR_def FONTS_DIR_def
        font_filename_def font_name_safe_def lower_def lower_char_def replace_space_def
        weight_key_def weight_map_def dict_get_def)

lemma weight_key_values [simp]:
  "weight_key 300 = ''light''" "weight_key 400 = ''regular''" "weight_key 700 = ''bold''"
  by (simp_all add: weight_key_def weight_map_def dict_get_def)

text \<open>
  Claim C1, as amended. For the family Noto Sans JP with no local file, a catalog that
  maps exactly 400 to \<open>u1\<close> and 700 to \<open>u2\<close>, an empty cache and downloads that
  succeed: the missing weight 300 is replaced by the closest catalog weight, 400, so light
  is downloaded from \<open>u1\<close> into its own cache file; regular is downloaded from \<open>u1\<close>
  and bold from \<open>u2\<close>. Three font files are downloaded, and light and regular are
  different paths with the same content.
\<close>

theorem noto_sans_jp_three_downloads:
  assumes no_local: "\<forall>pattern \<in> set (local_font_patterns ''Noto Sans JP'').
                        files w (path_join FONTS_DIR pattern) = None"
    and mk: "mkdir_ok e"
    and cat: "catalog_response e ''Noto Sans JP'' [300, 400, 700] = Inr blocks"
    and keys: "set (map fst (parse_blocks [] blocks)) = {400, 700}"
    and u1: "dict_get (parse_blocks [] blocks) 400 = Some u1" "u1 \<noteq> []"
    and u2: "dict_get (parse_blocks [] blocks) 700 = Some u2" "u2 \<noteq> []"
    and no_cache: "files w (cache_path ''Noto Sans JP'' 300 u1) = None"
                  "files w (cache_path ''Noto Sans JP'' 400 u1) = None"
                  "files w (cache_path ''Noto Sans JP'' 700 u2) = None"
    and fetch: "font_response e u1 = Inr b1" "font_response e u2 = Inr b2"
    and disk: "disk_fault e (cache_path ''Noto Sans JP'' 300 u1) = NoFault"
              "disk_fault e (cache_path ''Noto Sans JP'' 400 u1) = NoFault"
              "disk_fault e (cache_path ''Noto Sans JP'' 700 u2) = NoFault"
  shows "fst (load_fonts e (Some ''Noto Sans JP'') w) =
           Returned (Some [(''light'', cache_path ''Noto Sans JP'' 300 u1),
                           (''regular'', cache_path ''Noto Sans JP'' 400 u1),
                           (''bold'', cache_path ''Noto Sans JP'' 700 u2)])
       \<and> cache_path ''Noto Sans JP'' 300 u1 \<noteq> cache_path ''Noto Sans JP'' 400 u1
       \<and> font_downloads (trace (snd (load_fonts e (Some ''Noto Sans JP'') w)))
           = font_downloads (trace w) @ [u1, u1, u2]
       \<and> files (snd (load_fonts e (Some ''Noto Sans JP'') w))
           = (files w)(cache_path ''Noto Sans JP'' 300 u1 \<mapsto> b1,
                       cache_path ''Noto Sans JP'' 400 u1 \<mapsto> b1,
                       cache_path ''Noto Sans JP'' 700 u2 \<mapsto> b2)"
proof -
  let ?F = "''Noto Sans JP''"
  let ?m = "parse_blocks [] blocks"
  let ?pl = "cache_path ?F 300 u1"
  let ?pr = "cache_path ?F 400 u1"
  let ?pb = "cache_path ?F 700 u2"
  have distinct: "?pl \<noteq> ?pr" "?pl \<noteq> ?pb" "?pr \<noteq> ?pb"
    by (simp_all add: noto_paths)
  obtain local_fonts w0 where s: "scan_local (local_font_patterns ?F) [] w = (local_fonts, w0)"
    by (cases "scan_local (local_font_patterns ?F) [] w")
  have l: "local_fonts = []"
    using scan_local_none [OF no_local, of "[]"] s by simp
  have f0: "files w0 = files w"
    using scan_local_files [of "local_font_patterns ?F" "[]" w] s by simp
  have t0: "font_downloads (trace w0) = font_downloads (trace w)"
    using scan_local_trace [of "local_font_patterns ?F" "[]" w] s
    by (simp add: font_downloads_append)
  define wa where "wa = log (GetCatalog ?F [300, 400, 700]) (log (Mkdir FONTS_CACHE_DIR) w0)"
  have fa: "files wa = files w" and ta: "font_downloads (trace wa) = font_downloads (trace w)"
    using f0 t0 by (simp_all add: wa_def font_downloads_append)
  have absent: "dict_get ?m 300 = None"
    using keys by (simp add: dict_get_def map_of_eq_None_iff)
  have "\<forall>k' \<in> set (map fst ?m). k' \<noteq> 400 \<longrightarrow> \<bar>400 - 300\<bar> < \<bar>k' - 300\<bar>"
    unfolding keys by simp
  with absent u1(1) have sel_light: "select_url ?m 300 = Returned (Some u1)"
    by (rule select_url_nearest)
  have sel_regular: "select_url ?m 400 = Returned (Some u1)"
    using u1 by (rule select_url_present)
  have sel_bold: "select_url ?m 700 = Returned (Some u2)"
    using u2 by (rule select_url_present)
  define w1 where "w1 = snd (get_or_fetch e ?F 300 u1 [] wa)"
  have g1: "get_or_fetch e ?F 300 u1 [] wa = ([(''light'', ?pl)], w1)"
    and f1: "files w1 = (files w)(?pl \<mapsto> b1)"
    and t1: "font_downloads (trace w1) = font_downloads (trace w) @ [u1]"
    using no_cache(1) fetch(1) disk(1) fa ta
    by (simp_all add: w1_def get_or_fetch_written font_downloads_append)
  define w2 where "w2 = snd (get_or_fetch e ?F 400 u1 [(''light'', ?pl)] w1)"
  have "files w1 ?pr = None"
    using f1 no_cache(2) distinct by simp
  then have g2: "get_or_fetch e ?F 400 u1 [(''light'', ?pl)] w1
                   = ([(''light'', ?pl), (''regular'', ?pr)], w2)"
    and f2: "files w2 = (files w)(?pl \<mapsto> b1, ?pr \<mapsto> b1)"
    and t2: "font_downloads (trace w2) = font_downloads (trace w) @ [u1, u1]"
    using fetch(1) disk(2) f1 t1
    by (simp_all add: w2_def get_or_fetch_written font_downloads_append)
  define w3 where "w3 = snd (get_or_fetch e ?F 700 u2 [(''light'', ?pl), (''regular'', ?pr)] w2)"
  have "files w2 ?pb = None"
    using f2 no_cache(3) distinct by simp
  then have g3: "get_or_fetch e ?F 700 u2 [(''light'', ?pl), (''regular'', ?pr)] w2
                   = ([(''light'', ?pl), (''regular'', ?pr), (''bold'', ?pb)], w3)"
    and f3: "files w3 = (files w)(?pl \<mapsto> b1, ?pr \<mapsto> b1, ?pb \<mapsto> b2)"
    and t3: "font_downloads (trace w3) = font_downloads (trace w) @ [u1, u1, u2]"
    using fetch(2) disk(3) f2 t2
    by (simp_all add: w3_def get_or_fetch_written font_downloads_append)
  have loop: "download_weights e ?F ?m [300, 400, 700] [] wa
      = (Returned [(''light'', ?pl), (''regular'', ?pr), (''bold'', ?pb)], w3)"
    using u1(2) u2(2)
    by (simp add: download_weight_url [OF sel_light] download_weight_url [OF sel_regular]
          download_weight_url [OF sel_bold] g1 g2 g3)
  have fill: "backfill [(''light'', ?pl), (''regular'', ?pr), (''bold'', ?pb)]
      = [(''light'', ?pl), (''regular'', ?pr), (''bold'', ?pb)]"
    by (simp add: backfill_def ensure_regular_def fill_from_regular_def dict_has_def dict_get_def)
  have body: "download_body e ?F [300, 400, 700] (log (Mkdir FONTS_CACHE_DIR) w0)
      = (Returned (Some [(''light'', ?pl), (''regular'', ?pr), (''bold'', ?pb)]), w3)"
    using cat loop fill by (simp add: download_body_def wa_def [symmetric] Let_def del: download_weights.simps)
  have "download_google_font e ?F None w0
      = (Returned (Some [(''light'', ?pl), (''regular'', ?pr), (''bold'', ?pb)]), w3)"
    using mk body by (simp add: download_google_font_def Let_def)
  then have "load_fonts e (Some ?F) w
      = (Returned (Some [(''light'', ?pl), (''regular'', ?pr), (''bold'', ?pb)]), w3)"
    using s l by (simp add: load_fonts_def lower_def lower_char_def)
  then show ?thesis
    using distinct(1) f3 t3 by simp
qed

theorem noto_sans_jp_three_downloads_witness:
  "fst (load_fonts noto_catalog (Some ''Noto Sans JP'') empty_world) =
           Returned (Some [(''light'', cache_path ''Noto Sans JP'' 300 ''https://h/r.woff2''),
                           (''regular'', cache_path ''Noto Sans JP'' 400 ''https://h/r.woff2''),
                           (''bold'', cache_path ''Noto Sans JP'' 700 ''https://h/b.woff2'')])
       \<and> cache_path ''Noto Sans JP'' 300 ''https://h/r.woff2''
            \<noteq> cache_path ''Noto Sans JP'' 400 ''https://h/r.woff2''
       \<and> font_downloads (trace (snd (load_fonts noto_catalog (Some ''Noto Sans JP'') empty_world)))
           = font_downloads (trace empty_world)
               @ [''https://h/r.woff2'', ''https://h/r.woff2'', ''https://h/b.woff2'']
       \<and> files (snd (load_fonts noto_catalog (Some ''Noto Sans JP'') empty_world))
           = (files empty_world)
               (cache_path ''Noto Sans JP'' 300 ''https://h/r.woff2'' \<mapsto> [4, 0, 0],
                cache_path ''Noto Sans JP'' 400 ''https://h/r.woff2'' \<mapsto> [4, 0, 0],
                cache_path ''Noto Sans JP'' 700 ''https://h/b.woff2'' \<mapsto> [7, 0, 0])"
proof (rule noto_sans_jp_three_downloads
    [where blocks = "[Block (Some 400) (Some ''https://h/r.woff2''),
                      Block (Some 700) (Some ''https://h/b.woff2'')]"])
  show "\<forall>pattern \<in> set (local_font_patterns ''Noto Sans JP'').
          files empty_world (path_join FONTS_DIR pattern) = None"
    by (simp add: empty_world_def)
  show "mkdir_ok noto_catalog"
    by (simp add: noto_catalog_def)
  show "catalog_response noto_catalog ''Noto Sans JP'' [300, 400, 700]
      = Inr [Block (Some 400) (Some ''https://h/r.woff2''),
             Block (Some 700) (Some ''https://h/b.woff2'')]"
    by (simp add: noto_catalog_def)
  show "set (map fst (parse_blocks [] [Block (Some 400) (Some ''https://h/r.woff2''),
                      Block (Some 700) (Some ''https://h/b.woff2'')])) = {400, 700}"
    by simp
  show "dict_get (parse_blocks [] [Block (Some 400) (Some ''https://h/r.woff2''),
                      Block (Some 700) (Some ''https://h/b.woff2'')]) 400 = Some ''https://h/r.woff2''"
    by (simp add: dict_get_def)
  show "dict_get (parse_blocks [] [Block (Some 400) (Some ''https://h/r.woff2''),
                      Block (Some 700) (Some ''https://h/b.woff2'')]) 700 = Some ''https://h/b.woff2''"
    by (simp add: dict_get_def)
  show "''https://h/r.woff2'' \<noteq> []" and "''https://h/b.woff2'' \<noteq> []"
    by simp_all
  show "files empty_world (cache_path ''Noto Sans JP'' 300 ''https://h/r.woff2'') = None"
    and "files empty_world (cache_path ''Noto Sans JP'' 400 ''https://h/r.woff2'') = None"
    and "files empty_world (cache_path ''Noto Sans JP'' 700 ''https://h/b.woff2'') = None"
    by (simp_all add: empty_world_def)
  show "font_response noto_catalog ''https://h/r.woff2'' = Inr [4, 0, 0]"
    and "font_response noto_catalog ''https://h/b.woff2'' = Inr [7, 0, 0]"
    by (simp_all add: noto_catalog_def)
  show "disk_fault noto_catalog (cache_path ''Noto Sans JP'' 300 ''https://h/r.woff2'') = NoFault"
    and "disk_fault noto_catalog (cache_path ''Noto Sans JP'' 400 ''https://h/r.woff2'') = NoFault"
    and "disk_fault noto_catalog (cache_path ''Noto Sans JP'' 700 ''https://h/b.woff2'') = NoFault"
    by (simp_all add: noto_catalog_def)
qed


text \<open>
  Claim C1 as stated fails: there are three downloads, not two, and light is not the path
  of regular.
\<close>

theorem noto_sans_jp_counterexample:
  "catalog_response noto_catalog ''Noto Sans JP'' [300, 400, 700]
      = Inr [Block (Some 400) (Some ''https://h/r.woff2''), Block (Some 700) (Some ''https://h/b.woff2'')]
   \<and> parse_blocks [] [Block (Some 400) (Some ''https://h/r.woff2''), Block (Some 700) (Some ''https://h/b.woff2'')]
      = [(400, ''https://h/r.woff2''), (700, ''https://h/b.woff2'')]
   \<and> fst (load_fonts noto_catalog (Some ''Noto Sans JP'') empty_world) =
       Returned (Some [(''light'', ''fonts/cache/noto_sans_jp_light.woff2''),
                       (''regular'', ''fonts/cache/noto_sans_jp_regular.woff2''),
                       (''bold'', ''fonts/cache/noto_sans_jp_bold.woff2'')])
   \<and> font_downloads (trace (snd (load_fonts noto_catalog (Some ''Noto Sans JP'') empty_world)))
       = [''https://h/r.woff2'', ''https://h/r.woff2'', ''https://h/b.woff2'']
   \<and> length (font_downloads (trace (snd (load_fonts noto_catalog (Some ''Noto Sans JP'') empty_world))))
       \<noteq> 2
   \<and> ''fonts/cache/noto_sans_jp_light.woff2'' \<noteq> ''fonts/cache/noto_sans_jp_regular.woff2''"
  by code_simp

section \<open>A second call\<close>


lemma network_requests_exists [simp]: "network_requests (map (\<lambda>p. Exists (g p)) ps) = []"
  by (induction ps) simp_all
























end
